theory Spec2Isabelle
  imports Complex_Main "HOL-Library.Monad_Syntax" "HOL-Library.Log_Nat"
begin

section \<open>Errors\<close>

text \<open>
  Both source files guard their preconditions with \<^verbatim>\<open>assert\<close>. A failed assertion
  stops the program; in the model it is the error value of a sum type.
\<close>

datatype error = AssertionFailed

section \<open>point.h: the axis-permuted integer point\<close>

text \<open>
  \<^verbatim>\<open>const int PR[3] = { 1, 2, 0 };  const int PC[3] = { 2, 0, 1 };
  const int PD[3] = { 0, 1, 2 };\<close>
  The tables are constant arrays, read at an index that the constructor has already
  checked to be 0, 1 or 2.
\<close>

definition PR :: "int list" where
  "PR = [1, 2, 0]"

definition PC :: "int list" where
  "PC = [2, 0, 1]"

definition PD :: "int list" where
  "PD = [0, 1, 2]"

text \<open>
  \<^verbatim>\<open>union { struct { int x; int y; int z; }; int v[3]; };\<close>
  The three named members and the array \<^verbatim>\<open>v\<close> are the same storage: \<^verbatim>\<open>v[0]\<close> is
  \<^verbatim>\<open>x\<close>, \<^verbatim>\<open>v[1]\<close> is \<^verbatim>\<open>y\<close>, \<^verbatim>\<open>v[2]\<close> is \<^verbatim>\<open>z\<close>. The components are only stored,
  copied and compared, never added, so the width of \<^verbatim>\<open>int\<close> plays no role.
\<close>

record Point =
  x :: int
  y :: int
  z :: int

text \<open>Reading \<^verbatim>\<open>v[index]\<close>. An index outside the array reads outside the object; the only
  callers are the checked \<^verbatim>\<open>operator[]\<close> and the constructor, whose indices come from
  the tables.\<close>

definition v_read :: "Point \<Rightarrow> int \<Rightarrow> int option" where
  "v_read p index =
     (if index = 0 then Some (x p)
      else if index = 1 then Some (y p)
      else if index = 2 then Some (z p)
      else None)"

text \<open>Writing \<^verbatim>\<open>v[index] = value\<close>.\<close>

definition v_write :: "Point \<Rightarrow> int \<Rightarrow> int \<Rightarrow> Point option" where
  "v_write p index val =
     (if index = 0 then Some (p\<lparr>x := val\<rparr>)
      else if index = 1 then Some (p\<lparr>y := val\<rparr>)
      else if index = 2 then Some (p\<lparr>z := val\<rparr>)
      else None)"

text \<open>\<^verbatim>\<open>Point() : x(0), y(0), z(0)\<close>\<close>

definition Point_default :: "Point" where
  "Point_default = \<lparr>x = 0, y = 0, z = 0\<rparr>"

text \<open>\<^verbatim>\<open>Point( int x_, int y_, int z_ ) : x(x_), y(y_), z(z_)\<close>\<close>

definition Point_xyz :: "int \<Rightarrow> int \<Rightarrow> int \<Rightarrow> Point" where
  "Point_xyz x' y' z' = \<lparr>x = x', y = y', z = z'\<rparr>"

text \<open>
  \<^verbatim>\<open>Point( int axis, int x_, int y_, int z_ )\<close> has no initialiser list: the object
  starts with whatever the storage held (\<open>garbage\<close>), then the assertion is checked and
  the three slots are written in the order row, column, depth. A write outside the
  array would be an error of its own (\<open>None\<close> of \<open>v_write\<close>); it is reported as the
  same failure, and \<open>tables_in_range\<close> below shows that it never happens.
\<close>

definition Point_axis :: "Point \<Rightarrow> int \<Rightarrow> int \<Rightarrow> int \<Rightarrow> int \<Rightarrow> error + Point" where
  "Point_axis garbage axis x' y' z' =
     (if \<not> (axis \<ge> 0 \<and> axis < 3) then Inl AssertionFailed
      else
        (case v_write garbage (PR ! nat axis) x' of
           None \<Rightarrow> Inl AssertionFailed
         | Some p1 \<Rightarrow>
            (case v_write p1 (PC ! nat axis) y' of
               None \<Rightarrow> Inl AssertionFailed
             | Some p2 \<Rightarrow>
                (case v_write p2 (PD ! nat axis) z' of
                   None \<Rightarrow> Inl AssertionFailed
                 | Some p3 \<Rightarrow> Inr p3))))"

text \<open>\<^verbatim>\<open>bool operator == ( const Point& rhs ) const\<close>\<close>

definition Point_eq :: "Point \<Rightarrow> Point \<Rightarrow> bool" where
  "Point_eq lhs rhs = (x lhs = x rhs \<and> y lhs = y rhs \<and> z lhs = z rhs)"

text \<open>\<^verbatim>\<open>bool operator != ( const Point& rhs ) const\<close>\<close>

definition Point_neq :: "Point \<Rightarrow> Point \<Rightarrow> bool" where
  "Point_neq lhs rhs = (x lhs \<noteq> x rhs \<or> y lhs \<noteq> y rhs \<or> z lhs \<noteq> z rhs)"

text \<open>\<^verbatim>\<open>int operator[] ( int index ) const\<close>, with its assertion.\<close>

definition Point_index :: "Point \<Rightarrow> int \<Rightarrow> error + int" where
  "Point_index p index =
     (if \<not> (index \<ge> 0 \<and> index < 3) then Inl AssertionFailed
      else (case v_read p index of None \<Rightarrow> Inl AssertionFailed | Some val \<Rightarrow> Inr val))"

text \<open>\<^verbatim>\<open>bool isZero() const\<close>\<close>

definition isZero :: "Point \<Rightarrow> bool" where
  "isZero p = (x p = 0 \<and> y p = 0 \<and> z p = 0)"

section \<open>The game client: data\<close>

text \<open>
  Modelled from the spec: the \<^verbatim>\<open>Time\<close> value type. Its header (common/time.h) is not
  part of the sources at hand. The spec describes it as an opaque fixed-precision
  duration or instant, built from a number of seconds, with \<open>+\<close>, \<open>-\<close>, \<open>+=\<close>, \<open>-=\<close>,
  \<open><\<close>, \<open>>=\<close> and a conversion back to seconds. Fixed precision means that sums,
  differences and comparisons of Time values are exact, so a Time is an exact number of
  seconds here.
\<close>

type_synonym Time = rat

text \<open>
  Modelled from the spec: the constructor \<^verbatim>\<open>Time( seconds )\<close> of that absent type. It
  keeps the number of seconds it is given. The \<^verbatim>\<open>float\<close> constants of the client's
  constructor (\<^verbatim>\<open>1.0f / 50.0f\<close>, \<^verbatim>\<open>0.01f\<close>) stand for the numbers they denote; the
  \<^verbatim>\<open>double\<close> quotient of \<^verbatim>\<open>setUpdateFrequency\<close> is rounded as the machine rounds it
  (\<open>roundToDouble\<close> below).
\<close>

definition Time :: "rat \<Rightarrow> Time" where
  "Time seconds = seconds"

text \<open>
  Modelled from the spec: the conversion \<^verbatim>\<open>toDouble()\<close> of that absent type, back to
  a number of seconds, again without rounding.
\<close>

definition toDouble :: "Time \<Rightarrow> rat" where
  "toDouble t = t"

text \<open>Pointers to the window and to the renderer: null or the address of an object.\<close>

datatype ptr = NULL | Addr nat

text \<open>The two status codes of \<^verbatim>\<open>App\<close> that the client returns.\<close>

datatype status = EPROGRAM_OK | EPROGRAM_FATAL_ERROR

text \<open>
  The value of the floating-point expression that computes the interpolation: a number,
  or what a division by zero gives. The number is exact; rounding to \<^verbatim>\<open>float\<close> is not
  represented.
\<close>

datatype fpval = Finite rat | PlusInfinity | MinusInfinity | NotANumber

text \<open>The members that the constructor of \<^verbatim>\<open>GameClient\<close> initialises.\<close>

record GameClient =
  mpMainWindow :: ptr
  mpRenderer :: ptr
  mIsGameRunning :: bool
  mIsRunningSlowly :: bool
  mUpdateFrequency :: Time
  mMaximumSleepSkew :: Time

text \<open>The local variables of \<^verbatim>\<open>runMainGameLoop\<close> that live across iterations.\<close>

record loop_state =
  simulationTime :: Time
  accumulatedTime :: Time
  systemTime :: Time

text \<open>
  What the client does to the outside is a trace of calls. The calls on the window and
  on the renderer carry the pointer they go through. \<open>Update\<close> and \<open>Draw\<close> are the
  overridable member functions \<^verbatim>\<open>update\<close> and \<^verbatim>\<open>draw\<close>: they carry the client they are
  invoked on, as it is at the call, and their two arguments. What a call through a null
  pointer does is outside the language; the trace records the call and its pointer.
  Log output is not part of the trace.
\<close>

datatype event =
    Show ptr
  | CallInitializeClient
  | CallInitialize
  | CallLoadContent
  | CallRunMainGameLoop
  | CallUnloadContent
  | ProcessMessages ptr
  | Update GameClient Time Time
  | Draw GameClient Time fpval
  | Present ptr
  | Sleep Time

text \<open>
  \<^verbatim>\<open>initializeClient\<close>, \<^verbatim>\<open>initialize\<close> and \<^verbatim>\<open>loadContent\<close> are overridable and
  return a success flag. What an override returns is a parameter of \<^verbatim>\<open>run\<close>; the
  implementations in \<^verbatim>\<open>GameClient\<close> itself all return true.
\<close>

record hooks =
  initializeClient :: bool
  initialize :: bool
  loadContent :: bool

definition GameClient_hooks :: hooks where
  "GameClient_hooks = \<lparr>initializeClient = True, initialize = True, loadContent = True\<rparr>"

section \<open>The game client: operations\<close>

text \<open>
  \<^verbatim>\<open>GameClient::GameClient( IWindow *pMainWindow, IRenderer *pRenderer )\<close>: the
  initialiser list, then the two assertions.
\<close>

definition GameClient_GameClient :: "ptr \<Rightarrow> ptr \<Rightarrow> error + GameClient" where
  "GameClient_GameClient pMainWindow pRenderer =
     (let this = \<lparr>mpMainWindow = pMainWindow,
                   mpRenderer = NULL,
                   mIsGameRunning = False,
                   mIsRunningSlowly = False,
                   mUpdateFrequency = Time (1 / 50),
                   mMaximumSleepSkew = Time (1 / 100)\<rparr>
      in if \<not> (pMainWindow \<noteq> NULL) then Inl AssertionFailed
         else if \<not> (pRenderer \<noteq> NULL) then Inl AssertionFailed
         else Inr this)"

text \<open>
  The arithmetic of \<^verbatim>\<open>double\<close> (IEEE 754 binary64): a result is the exact value
  rounded to the nearest number with 53 significant bits, a tie going to the even
  significand. \<open>binade q\<close> is the exponent of a positive \<open>q\<close>, the \<open>e\<close> with
  \<open>2^e \<le> q < 2^(e+1)\<close>, found from the bit lengths of numerator and denominator.
  The limits of the exponent are left out: the only values rounded here are the quotients
  1/n for a positive \<^verbatim>\<open>int\<close> n, which lie far inside the normal range.
\<close>

definition binade :: "rat \<Rightarrow> int" where
  "binade q =
     (case quotient_of q of
        (a, b) \<Rightarrow> let e = bitlen a - bitlen b in if power_int 2 e \<le> q then e else e - 1)"

definition roundHalfEven :: "rat \<Rightarrow> int" where
  "roundHalfEven m =
     (let f = \<lfloor>m\<rfloor>; r = m - of_int f
      in if r < 1 / 2 then f
         else if r > 1 / 2 then f + 1
         else if even f then f else f + 1)"

definition roundToDouble :: "rat \<Rightarrow> rat" where
  "roundToDouble q =
     (if q = 0 then 0
      else let ulp = power_int 2 (binade \<bar>q\<bar> - 52)
           in sgn q * of_int (roundHalfEven (\<bar>q\<bar> / ulp)) * ulp)"

text \<open>
  \<^verbatim>\<open>void GameClient::setUpdateFrequency( int numUpdatesPerSecond )\<close>:
  \<^verbatim>\<open>mUpdateFrequency = Time( 1.0 / static_cast<double>(numUpdatesPerSecond) );\<close>
  The cast of an \<^verbatim>\<open>int\<close> to \<^verbatim>\<open>double\<close> is exact; the division is a \<^verbatim>\<open>double\<close>
  division, so its result is the exact quotient rounded.
\<close>

definition setUpdateFrequency :: "GameClient \<Rightarrow> int \<Rightarrow> error + GameClient" where
  "setUpdateFrequency this numUpdatesPerSecond =
     (if \<not> (numUpdatesPerSecond > 0) then Inl AssertionFailed
      else Inr (this\<lparr>mUpdateFrequency :=
                      Time (roundToDouble (1 / of_int numUpdatesPerSecond))\<rparr>))"

text \<open>
  The inner loop of \<^verbatim>\<open>runMainGameLoop\<close>:
  \<^verbatim>\<open>while ( accumulatedTime >= mUpdateFrequency ) { ... }\<close>.
  It runs for ever when the update period is not positive and the accumulated time has
  reached it, so it is a partial function: \<open>None\<close> is the loop that does not end.
  \<^verbatim>\<open>numUpdates\<close> is a \<^verbatim>\<open>size_t\<close> that counts from zero by one; it is a natural number
  here.
\<close>

partial_function (option) drainAccumulator ::
  "GameClient \<Rightarrow> nat \<Rightarrow> loop_state \<Rightarrow> event list
    \<Rightarrow> (GameClient \<times> nat \<times> loop_state \<times> event list) option" where
  "drainAccumulator this numUpdates ls evs =
     (if accumulatedTime ls \<ge> mUpdateFrequency this then
        (let this1 = this\<lparr>mIsRunningSlowly := (numUpdates > 0)\<rparr>;
             evs1 = evs @ [Update this1 (simulationTime ls) (mUpdateFrequency this1)];
             numUpdates1 = numUpdates + 1;
             ls1 = ls\<lparr>simulationTime := simulationTime ls + mUpdateFrequency this1\<rparr>;
             ls2 = ls1\<lparr>accumulatedTime := accumulatedTime ls1 - mUpdateFrequency this1\<rparr>
         in drainAccumulator this1 numUpdates1 ls2 evs1)
      else Some (this, numUpdates, ls, evs))"

declare drainAccumulator.simps [code]

text \<open>
  The frame time of one iteration:
  \<^verbatim>\<open>frameTime = newTime - systemTime; if ( frameTime > Time(0.25) ) frameTime = Time(0.25);\<close>
\<close>

definition clampedFrameTime :: "Time \<Rightarrow> Time \<Rightarrow> Time" where
  "clampedFrameTime systemTime' newTime =
     (let frameTime = newTime - systemTime'
      in if frameTime > Time (1 / 4) then Time (1 / 4) else frameTime)"

text \<open>
  The first half of an iteration, from \<^verbatim>\<open>processMessages\<close> to the end of the inner
  loop. \<open>newTime\<close> is what \<^verbatim>\<open>App::currentTime()\<close> returns in this iteration. The result
  carries the client, the final \<^verbatim>\<open>numUpdates\<close>, the loop variables and the calls made.
\<close>

definition simulateFrame ::
  "GameClient \<Rightarrow> loop_state \<Rightarrow> Time
    \<Rightarrow> (GameClient \<times> nat \<times> loop_state \<times> event list) option" where
  "simulateFrame this ls newTime =
     (let evs = [ProcessMessages (mpMainWindow this)];
          frameTime = clampedFrameTime (systemTime ls) newTime;
          ls1 = ls\<lparr>systemTime := newTime\<rparr>;
          numUpdates = 0;
          ls2 = ls1\<lparr>accumulatedTime := accumulatedTime ls1 + frameTime\<rparr>
      in drainAccumulator this numUpdates ls2 evs)"

text \<open>
  \<^verbatim>\<open>float interpolation = 1.0f - ( accumulatedTime.toDouble() / mUpdateFrequency.toDouble() );\<close>
  The quotient by a zero period is not a number of seconds: it is infinite, or undefined
  when the accumulated time is zero as well.
\<close>

definition interpolation :: "Time \<Rightarrow> Time \<Rightarrow> fpval" where
  "interpolation accumulatedTime' updateFrequency =
     (if toDouble updateFrequency = 0 then
        (if toDouble accumulatedTime' < 0 then PlusInfinity
         else if toDouble accumulatedTime' = 0 then NotANumber
         else MinusInfinity)
      else Finite (1 - toDouble accumulatedTime' / toDouble updateFrequency))"

text \<open>The drawing of an iteration: \<^verbatim>\<open>draw( simulationTime, interpolation ); mpRenderer->present();\<close>\<close>

definition renderFrame :: "GameClient \<Rightarrow> loop_state \<Rightarrow> event list" where
  "renderFrame this ls =
     [Draw this (simulationTime ls)
        (interpolation (accumulatedTime ls) (mUpdateFrequency this)),
      Present (mpRenderer this)]"

text \<open>
  The end of an iteration:
  \<^verbatim>\<open>if ( accumulatedTime + mMaximumSleepSkew < mUpdateFrequency ) App::sleep( Time( 2.0 ) );\<close>
\<close>

definition endOfFrameSleep :: "GameClient \<Rightarrow> loop_state \<Rightarrow> event list" where
  "endOfFrameSleep this ls =
     (if accumulatedTime ls + mMaximumSleepSkew this < mUpdateFrequency this
      then [Sleep (Time 2)] else [])"

text \<open>One iteration of the outer loop without its last statement, the sleep.\<close>

definition frameBody ::
  "GameClient \<Rightarrow> loop_state \<Rightarrow> Time \<Rightarrow> (GameClient \<times> loop_state \<times> event list) option" where
  "frameBody this ls newTime =
     (case simulateFrame this ls newTime of
        None \<Rightarrow> None
      | Some (this', numUpdates, ls', evs) \<Rightarrow> Some (this', ls', evs @ renderFrame this' ls'))"

text \<open>One whole iteration of the outer loop.\<close>

definition frame ::
  "GameClient \<Rightarrow> loop_state \<Rightarrow> Time \<Rightarrow> (GameClient \<times> loop_state \<times> event list) option" where
  "frame this ls newTime =
     (case frameBody this ls newTime of
        None \<Rightarrow> None
      | Some (this', ls', evs) \<Rightarrow> Some (this', ls', evs @ endOfFrameSleep this' ls'))"

text \<open>
  The outer loop: \<^verbatim>\<open>while ( mIsGameRunning && (!mpMainWindow->didUserQuit()) )\<close>.
  The window and the clock are the input: the list holds, for each iteration that the
  window lets begin, the time that \<^verbatim>\<open>App::currentTime()\<close> returns in it. When the list
  is used up the window reports that the user has quit. Neither test changes the client
  or makes a call that the trace records, so the order of the two does not show.
\<close>

fun mainLoop ::
  "GameClient \<Rightarrow> loop_state \<Rightarrow> Time list \<Rightarrow> (GameClient \<times> loop_state \<times> event list) option" where
  "mainLoop this ls [] = Some (this, ls, [])"
| "mainLoop this ls (newTime # clock) =
     (if mIsGameRunning this then
        (case frame this ls newTime of
           None \<Rightarrow> None
         | Some (this', ls', evs) \<Rightarrow>
            (case mainLoop this' ls' clock of
               None \<Rightarrow> None
             | Some (this'', ls'', evs') \<Rightarrow> Some (this'', ls'', evs @ evs')))
      else Some (this, ls, []))"

text \<open>The loop variables as \<^verbatim>\<open>runMainGameLoop\<close> sets them before the loop.\<close>

definition loopStart :: "Time \<Rightarrow> loop_state" where
  "loopStart startTime =
     \<lparr>simulationTime = Time 0, accumulatedTime = Time 0, systemTime = startTime\<rparr>"

text \<open>
  \<^verbatim>\<open>int GameClient::runMainGameLoop()\<close>. \<open>startTime\<close> is the first reading of the clock,
  taken before the loop.
\<close>

definition runMainGameLoop ::
  "GameClient \<Rightarrow> Time \<Rightarrow> Time list \<Rightarrow> (status \<times> GameClient \<times> event list) option" where
  "runMainGameLoop this startTime clock =
     (let this1 = this\<lparr>mIsGameRunning := True\<rparr>
      in case mainLoop this1 (loopStart startTime) clock of
           None \<Rightarrow> None
         | Some (this', ls', evs) \<Rightarrow> Some (EPROGRAM_OK, this', evs))"

text \<open>
  \<^verbatim>\<open>int GameClient::run()\<close>. The second operand of \<^verbatim>\<open>||\<close> is evaluated only when the
  first is false, so \<^verbatim>\<open>initialize\<close> is called only after \<^verbatim>\<open>initializeClient\<close> has
  succeeded. The status that the main loop returns is dropped.
\<close>

definition run ::
  "hooks \<Rightarrow> GameClient \<Rightarrow> Time \<Rightarrow> Time list \<Rightarrow> (status \<times> GameClient \<times> event list) option" where
  "run h this startTime clock =
     (let evs = [Show (mpMainWindow this)] in
      if \<not> initializeClient h then
        Some (EPROGRAM_FATAL_ERROR, this, evs @ [CallInitializeClient])
      else if \<not> initialize h then
        Some (EPROGRAM_FATAL_ERROR, this, evs @ [CallInitializeClient, CallInitialize])
      else if \<not> loadContent h then
        Some (EPROGRAM_FATAL_ERROR, this,
              evs @ [CallInitializeClient, CallInitialize, CallLoadContent])
      else
        (case runMainGameLoop this startTime clock of
           None \<Rightarrow> None
         | Some (st, this', evs') \<Rightarrow>
             Some (EPROGRAM_OK, this',
                   evs @ [CallInitializeClient, CallInitialize, CallLoadContent,
                          CallRunMainGameLoop] @ evs' @ [CallUnloadContent])))"

section \<open>Reading a trace\<close>

fun isUpdate :: "event \<Rightarrow> bool" where
  "isUpdate (Update this simulationTime' deltaTime) = True"
| "isUpdate e = False"

text \<open>The number of calls of \<^verbatim>\<open>update\<close> in a trace.\<close>

definition numUpdateCalls :: "event list \<Rightarrow> nat" where
  "numUpdateCalls evs = length (filter isUpdate evs)"

text \<open>The interpolation values passed to \<^verbatim>\<open>draw\<close>, in order.\<close>

fun drawnInterpolations :: "event list \<Rightarrow> fpval list" where
  "drawnInterpolations [] = []"
| "drawnInterpolations (Draw this simulationTime' i # evs) = i # drawnInterpolations evs"
| "drawnInterpolations (e # evs) = drawnInterpolations evs"

text \<open>The "running slowly" flag of the client at each call of \<^verbatim>\<open>draw\<close>, in order.\<close>

fun slowAtDraw :: "event list \<Rightarrow> bool list" where
  "slowAtDraw [] = []"
| "slowAtDraw (Draw this simulationTime' i # evs) = mIsRunningSlowly this # slowAtDraw evs"
| "slowAtDraw (e # evs) = slowAtDraw evs"

text \<open>The pointers through which \<^verbatim>\<open>present\<close> is called, in order.\<close>

fun presentCalls :: "event list \<Rightarrow> ptr list" where
  "presentCalls [] = []"
| "presentCalls (Present r # evs) = r # presentCalls evs"
| "presentCalls (e # evs) = presentCalls evs"

text \<open>The calls of \<^verbatim>\<open>App::sleep\<close> in a trace, in order.\<close>

fun sleepCalls :: "event list \<Rightarrow> Time list" where
  "sleepCalls [] = []"
| "sleepCalls (Sleep d # evs) = d # sleepCalls evs"
| "sleepCalls (e # evs) = sleepCalls evs"

text \<open>The frame times behind a list of clock readings, before clamping.\<close>

fun frameTimes :: "Time \<Rightarrow> Time list \<Rightarrow> Time list" where
  "frameTimes systemTime' [] = []"
| "frameTimes systemTime' (newTime # clock) = (newTime - systemTime') # frameTimes newTime clock"

section \<open>Closed forms of the loops\<close>

text \<open>
  The number of times the inner loop runs from a given accumulated time, when the period
  is positive.
\<close>

definition numSteps :: "Time \<Rightarrow> Time \<Rightarrow> nat" where
  "numSteps period acc = (if acc < period then 0 else nat \<lfloor>acc / period\<rfloor>)"

text \<open>The calls of \<^verbatim>\<open>update\<close> that \<open>k\<close> rounds of the inner loop make.\<close>

fun updateCalls :: "nat \<Rightarrow> GameClient \<Rightarrow> nat \<Rightarrow> Time \<Rightarrow> event list" where
  "updateCalls 0 this numUpdates simulationTime' = []"
| "updateCalls (Suc k) this numUpdates simulationTime' =
     Update (this\<lparr>mIsRunningSlowly := (numUpdates > 0)\<rparr>) simulationTime' (mUpdateFrequency this)
     # updateCalls k (this\<lparr>mIsRunningSlowly := (numUpdates > 0)\<rparr>) (Suc numUpdates)
         (simulationTime' + mUpdateFrequency this)"

text \<open>The client and the loop variables after \<open>k\<close> rounds of the inner loop.\<close>

definition clientAfter :: "nat \<Rightarrow> GameClient \<Rightarrow> nat \<Rightarrow> GameClient" where
  "clientAfter k this numUpdates =
     (if k = 0 then this else this\<lparr>mIsRunningSlowly := (numUpdates + k > 1)\<rparr>)"

definition loopAfter :: "nat \<Rightarrow> Time \<Rightarrow> loop_state \<Rightarrow> loop_state" where
  "loopAfter k period ls =
     ls\<lparr>simulationTime := simulationTime ls + of_nat k * period,
        accumulatedTime := accumulatedTime ls - of_nat k * period\<rparr>"

text \<open>The number of rounds of the inner loop in one iteration of the outer loop.\<close>

definition frameSteps :: "GameClient \<Rightarrow> loop_state \<Rightarrow> Time \<Rightarrow> nat" where
  "frameSteps this ls newTime =
     numSteps (mUpdateFrequency this)
       (accumulatedTime ls + clampedFrameTime (systemTime ls) newTime)"

text \<open>The client and the loop variables at the end of one iteration of the outer loop.\<close>

definition clientAfterFrame :: "GameClient \<Rightarrow> loop_state \<Rightarrow> Time \<Rightarrow> GameClient" where
  "clientAfterFrame this ls newTime = clientAfter (frameSteps this ls newTime) this 0"

definition loopAfterFrame :: "GameClient \<Rightarrow> loop_state \<Rightarrow> Time \<Rightarrow> loop_state" where
  "loopAfterFrame this ls newTime =
     loopAfter (frameSteps this ls newTime) (mUpdateFrequency this)
       (ls\<lparr>systemTime := newTime,
           accumulatedTime := accumulatedTime ls + clampedFrameTime (systemTime ls) newTime\<rparr>)"

section \<open>An example client\<close>

text \<open>
  The client that the constructor builds for a window at address 1 and a renderer at
  address 2 (\<open>sampleClient_constructed\<close> below); the examples run on it.
\<close>

definition sampleClient :: GameClient where
  "sampleClient =
     \<lparr>mpMainWindow = Addr 1, mpRenderer = NULL, mIsGameRunning = False,
      mIsRunningSlowly = False, mUpdateFrequency = 1 / 50, mMaximumSleepSkew = 1 / 100\<rparr>"

section \<open>Properties of the point\<close>

lemma axis_cases: "axis \<in> {0, 1, 2 :: int} \<Longrightarrow> axis = 0 \<or> axis = 1 \<or> axis = 2"
  by simp

lemma tables_in_range:
  assumes "0 \<le> axis" and "axis < 3"
  shows "PR ! nat axis \<in> {0, 1, 2} \<and> PC ! nat axis \<in> {0, 1, 2} \<and> PD ! nat axis \<in> {0, 1, 2}"
proof -
  from assms have "axis = 0 \<or> axis = 1 \<or> axis = 2" by arith
  then show ?thesis
    by (elim disjE) (simp_all add: PR_def PC_def PD_def)
qed

lemma Point_axis_0:
  "Point_axis g 0 a b c = Inr \<lparr>x = c, y = a, z = b\<rparr>"
  by (simp add: Point_axis_def v_write_def PR_def PC_def PD_def)

lemma Point_axis_1:
  "Point_axis g 1 a b c = Inr \<lparr>x = b, y = c, z = a\<rparr>"
  by (simp add: Point_axis_def v_write_def PR_def PC_def PD_def)

lemma Point_axis_2:
  "Point_axis g 2 a b c = Inr \<lparr>x = a, y = b, z = c\<rparr>"
  by (simp add: Point_axis_def v_write_def PR_def PC_def PD_def)

text \<open>
  C8. For every axis in 0, 1, 2 and all integers a, b, c, the point built by the
  four-argument constructor holds a in slot PR[axis], b in slot PC[axis] and c in slot
  PD[axis], whatever the storage held before: reading the three slots back through the
  checked index operator returns (a, b, c).
\<close>

theorem Point_axis_readback:
  assumes "axis \<in> {0, 1, 2}"
  shows "\<exists>p. Point_axis garbage axis a b c = Inr p
           \<and> Point_index p (PR ! nat axis) = Inr a
           \<and> Point_index p (PC ! nat axis) = Inr b
           \<and> Point_index p (PD ! nat axis) = Inr c"
proof -
  from assms consider "axis = 0" | "axis = 1" | "axis = 2"
    using axis_cases by blast
  then show ?thesis
  proof cases
    case 1
    then show ?thesis
      by (simp add: Point_axis_0 Point_index_def v_read_def PR_def PC_def PD_def)
  next
    case 2
    then show ?thesis
      by (simp add: Point_axis_1 Point_index_def v_read_def PR_def PC_def PD_def)
  next
    case 3
    then show ?thesis
      by (simp add: Point_axis_2 Point_index_def v_read_def PR_def PC_def PD_def)
  qed
qed

theorem Point_axis_readback_witness:
  "(1::int) \<in> {0, 1, 2}
   \<and> (\<exists>p. Point_axis \<lparr>x = 9, y = 9, z = 9\<rparr> 1 4 5 6 = Inr p
           \<and> Point_index p (PR ! nat 1) = Inr 4
           \<and> Point_index p (PC ! nat 1) = Inr 5
           \<and> Point_index p (PD ! nat 1) = Inr 6)"
proof -
  have h: "(1::int) \<in> {0, 1, 2}" by simp
  show ?thesis
    using h Point_axis_readback [OF h, of "\<lparr>x = 9, y = 9, z = 9\<rparr>" 4 5 6] by simp
qed

text \<open>
  C10. With the depth axis as primary the permutation is the identity: the point built
  by Point(2, a, b, c) compares equal to Point(a, b, c). For every axis in 0, 1, 2 the
  three slots PR[axis], PC[axis], PD[axis] are pairwise distinct, so the constructor
  writes all three components and its result does not depend on what the storage held.
\<close>

theorem Point_axis_depth_identity:
  "(\<exists>p. Point_axis garbage 2 a b c = Inr p \<and> Point_eq p (Point_xyz a b c))
   \<and> (axis \<in> {0, 1, 2} \<longrightarrow>
        PR ! nat axis \<noteq> PC ! nat axis
      \<and> PR ! nat axis \<noteq> PD ! nat axis
      \<and> PC ! nat axis \<noteq> PD ! nat axis
      \<and> Point_axis garbage axis a b c = Point_axis garbage' axis a b c
      \<and> Point_axis garbage axis a b c \<noteq> Inl AssertionFailed)"
proof (intro conjI impI)
  show "\<exists>p. Point_axis garbage 2 a b c = Inr p \<and> Point_eq p (Point_xyz a b c)"
    by (simp add: Point_axis_2 Point_eq_def Point_xyz_def)
next
  assume "axis \<in> {0, 1, 2}"
  then have ax: "axis = 0 \<or> axis = 1 \<or> axis = 2"
    by (rule axis_cases)
  from ax show "PR ! nat axis \<noteq> PC ! nat axis"
    by (elim disjE) (simp_all add: PR_def PC_def)
  from ax show "PR ! nat axis \<noteq> PD ! nat axis"
    by (elim disjE) (simp_all add: PR_def PD_def)
  from ax show "PC ! nat axis \<noteq> PD ! nat axis"
    by (elim disjE) (simp_all add: PC_def PD_def)
  from ax show "Point_axis garbage axis a b c = Point_axis garbage' axis a b c"
    by (elim disjE) (simp_all add: Point_axis_0 Point_axis_1 Point_axis_2)
  from ax show "Point_axis garbage axis a b c \<noteq> Inl AssertionFailed"
    by (elim disjE) (simp_all add: Point_axis_0 Point_axis_1 Point_axis_2)
qed

theorem Point_axis_depth_identity_witness:
  "(\<exists>p. Point_axis \<lparr>x = 7, y = 8, z = 9\<rparr> 2 1 2 3 = Inr p \<and> Point_eq p (Point_xyz 1 2 3))
   \<and> (0::int) \<in> {0, 1, 2}
   \<and> PR ! nat 0 \<noteq> PC ! nat 0
   \<and> PR ! nat 0 \<noteq> PD ! nat 0
   \<and> PC ! nat 0 \<noteq> PD ! nat 0
   \<and> Point_axis \<lparr>x = 7, y = 8, z = 9\<rparr> 0 1 2 3 = Point_axis \<lparr>x = 0, y = 0, z = 0\<rparr> 0 1 2 3
   \<and> Point_axis \<lparr>x = 7, y = 8, z = 9\<rparr> 0 1 2 3 \<noteq> Inl AssertionFailed"
proof -
  have h: "(0::int) \<in> {0, 1, 2}" by simp
  show ?thesis
    using h Point_axis_depth_identity
      [of "\<lparr>x = 7, y = 8, z = 9\<rparr>" 1 2 3 0 "\<lparr>x = 0, y = 0, z = 0\<rparr>"]
    by blast
qed

section \<open>Construction and configuration\<close>

lemma sampleClient_constructed: "GameClient_GameClient (Addr 1) (Addr 2) = Inr sampleClient"
  by (simp add: GameClient_GameClient_def sampleClient_def Time_def)

lemma sampleClient_period: "0 < mUpdateFrequency sampleClient"
  by (simp add: sampleClient_def)

text \<open>
  The rounding to \<^verbatim>\<open>double\<close>: the exponent found is the right one, the rounded value
  is within half a unit in the last place of the exact one, and a power of two is kept
  as it is.
\<close>

lemma binade_bounds:
  assumes "0 < q"
  shows "power_int 2 (binade q) \<le> q" and "q < power_int 2 (binade q + 1)"
proof -
  obtain a b where ab: "quotient_of q = (a, b)"
    by (cases "quotient_of q")
  then have b: "0 < b" and q: "q = of_int a / of_int b"
    by (auto simp: quotient_of_denom_pos quotient_of_div)
  with assms have a: "0 < a"
    by (simp add: zero_less_divide_iff)
  define la lb where "la = bitlen a" and "lb = bitlen b"
  have la1: "1 \<le> la" and lb1: "1 \<le> lb"
    using a b bitlen_eq_zero_iff [of a] bitlen_eq_zero_iff [of b] bitlen_nonneg [of a] bitlen_nonneg [of b]
    by (auto simp: la_def lb_def)
  from bitlen_bounds [OF a] have "2 ^ nat (la - 1) \<le> a" and "a < 2 ^ nat la"
    by (simp_all add: la_def)
  then have a_lo: "(2::rat) ^ nat (la - 1) \<le> of_int a" and a_hi: "of_int a < (2::rat) ^ nat la"
    by (metis of_int_le_iff of_int_numeral of_int_power, metis of_int_less_iff of_int_numeral of_int_power)
  from bitlen_bounds [OF b] have "2 ^ nat (lb - 1) \<le> b" and "b < 2 ^ nat lb"
    by (simp_all add: lb_def)
  then have b_lo: "(2::rat) ^ nat (lb - 1) \<le> of_int b" and b_hi: "of_int b < (2::rat) ^ nat lb"
    by (metis of_int_le_iff of_int_numeral of_int_power, metis of_int_less_iff of_int_numeral of_int_power)
  have pa: "(2::rat) ^ nat la = power_int 2 la" "(2::rat) ^ nat (la - 1) = power_int 2 (la - 1)"
    and pb: "(2::rat) ^ nat lb = power_int 2 lb" "(2::rat) ^ nat (lb - 1) = power_int 2 (lb - 1)"
    using la1 lb1 by (simp_all add: power_int_nonneg_exp)
  have bpos: "(0::rat) < of_int b" using b by simp
  have hi: "q < power_int 2 (la - lb + 1)"
  proof -
    have "q < power_int 2 la / of_int b"
      unfolding q using a_hi bpos by (simp add: divide_strict_right_mono pa)
    also have "\<dots> \<le> power_int 2 la / power_int 2 (lb - 1)"
      using b_lo by (simp add: pb frac_le)
    also have "\<dots> = power_int 2 (la - (lb - 1))"
      by (simp add: power_int_diff)
    finally show ?thesis by (simp add: algebra_simps)
  qed
  have lo: "power_int 2 (la - lb - 1) < q"
  proof -
    have "power_int 2 (la - lb - 1) = power_int 2 (la - 1) / (power_int 2 lb :: rat)"
      by (simp add: power_int_diff [symmetric] algebra_simps)
    also have "\<dots> < power_int 2 (la - 1) / of_int b"
      using b_hi bpos by (simp add: pb divide_strict_left_mono)
    also have "\<dots> \<le> q"
      unfolding q using a_lo bpos by (simp add: divide_right_mono pa)
    finally show ?thesis .
  qed
  have bd: "binade q = (if power_int 2 (la - lb) \<le> q then la - lb else la - lb - 1)"
    by (simp add: binade_def ab la_def lb_def Let_def)
  show "power_int 2 (binade q) \<le> q"
    using lo by (simp add: bd)
  show "q < power_int 2 (binade q + 1)"
    using hi by (auto simp: bd)
qed

lemma roundHalfEven_close: "\<bar>of_int (roundHalfEven m) - m\<bar> \<le> 1 / 2"
proof -
  have "of_int \<lfloor>m\<rfloor> \<le> m" and "m < of_int \<lfloor>m\<rfloor> + 1"
    by linarith+
  then show ?thesis
    by (auto simp: roundHalfEven_def Let_def)
qed

lemma roundHalfEven_of_int: "roundHalfEven (of_int k) = k"
  by (simp add: roundHalfEven_def Let_def)

lemma roundToDouble_error:
  assumes "0 < q"
  shows "\<bar>roundToDouble q - q\<bar> \<le> q / 2 ^ 53"
proof -
  define e where "e = binade q"
  define ulp :: rat where "ulp = power_int 2 (e - 52)"
  define m where "m = q / ulp"
  have ulp: "0 < ulp" by (simp add: ulp_def)
  have q: "q = m * ulp" using ulp by (simp add: m_def)
  have d: "roundToDouble q = of_int (roundHalfEven m) * ulp"
    using assms by (simp add: roundToDouble_def Let_def ulp_def e_def m_def)
  have "\<bar>roundToDouble q - q\<bar> = \<bar>of_int (roundHalfEven m) - m\<bar> * ulp"
    unfolding d using ulp by (subst q) (simp add: abs_mult left_diff_distrib [symmetric])
  also have "\<dots> \<le> (1 / 2) * ulp"
    using roundHalfEven_close [of m] ulp by (simp add: mult_right_mono)
  also have "\<dots> = power_int 2 e / 2 ^ 53"
    by (simp add: ulp_def power_int_diff)
  also have "\<dots> \<le> q / 2 ^ 53"
    using binade_bounds(1) [OF assms] by (simp add: e_def divide_right_mono)
  finally show ?thesis .
qed

lemma roundToDouble_pos:
  assumes "0 < q"
  shows "0 < roundToDouble q"
proof -
  have "q / 2 ^ 53 < q"
    using assms by (simp add: divide_less_eq)
  with roundToDouble_error [OF assms] show ?thesis
    by linarith
qed

lemma binade_power_int: "binade (power_int 2 j) = j"
proof -
  have pos: "(0::rat) < power_int 2 j" by simp
  have lo: "binade (power_int 2 j) \<le> j"
  proof (rule ccontr)
    assume "\<not> binade (power_int 2 j) \<le> j"
    then have "(power_int 2 j :: rat) < power_int 2 (binade (power_int 2 j))"
      by (intro power_int_strict_increasing) simp_all
    with binade_bounds(1) [OF pos] show False by simp
  qed
  have hi: "j < binade (power_int 2 j) + 1"
  proof (rule ccontr)
    assume "\<not> j < binade (power_int 2 j) + 1"
    then have "(power_int 2 (binade (power_int 2 j) + 1) :: rat) \<le> power_int 2 j"
      by (intro power_int_increasing) simp_all
    with binade_bounds(2) [OF pos] show False by simp
  qed
  from lo hi show ?thesis by simp
qed

lemma roundToDouble_power_int: "roundToDouble (power_int 2 j) = power_int 2 j"
proof -
  have pos: "(0::rat) < power_int 2 j" by simp
  have m: "power_int 2 j / power_int 2 (j - 52) = (of_int (2 ^ 52) :: rat)"
    by (simp add: power_int_diff)
  have "roundToDouble (power_int 2 j) = of_int (roundHalfEven (of_int (2 ^ 52))) * power_int 2 (j - 52)"
    using pos unfolding roundToDouble_def binade_power_int [of j] Let_def m [symmetric]
    by (simp add: binade_power_int)
  also have "\<dots> = power_int 2 j"
    unfolding roundHalfEven_of_int by (simp add: power_int_diff)
  finally show ?thesis .
qed

lemma roundToDouble_inverse_power: "roundToDouble (1 / 2 ^ k) = 1 / 2 ^ k"
  using roundToDouble_power_int [of "- int k"]
  by (simp add: power_int_minus_divide)

text \<open>
  The update period of a client is positive: the constructor sets it to 1/50 s, and
  \<^verbatim>\<open>setUpdateFrequency\<close> to the rounded 1/n s for a positive n. The main loop does not
  assign it.
\<close>

lemma constructed_period_positive:
  "GameClient_GameClient pMainWindow pRenderer = Inr this \<Longrightarrow> 0 < mUpdateFrequency this"
  by (auto simp: GameClient_GameClient_def Time_def split: if_splits)

lemma setUpdateFrequency_period_positive:
  "setUpdateFrequency this n = Inr this' \<Longrightarrow> 0 < mUpdateFrequency this'"
  by (auto simp: setUpdateFrequency_def Time_def roundToDouble_pos split: if_splits)

text \<open>
  C1. The constructor, given a window at address 1 and a renderer at address 2, succeeds
  and stores the null pointer as the renderer of the client; each frame of the main loop
  then calls present through the null pointer, not through the renderer supplied.
\<close>

theorem constructor_drops_renderer:
  "GameClient_GameClient (Addr 1) (Addr 2) = Inr sampleClient
   \<and> mpRenderer sampleClient = NULL
   \<and> map_option (presentCalls \<circ> snd \<circ> snd) (runMainGameLoop sampleClient 0 [1 / 50, 1 / 25])
       = Some [NULL, NULL]"
  by code_simp

text \<open>
  C7 as stated fails. For n = 60 the quotient 1.0 / 60 is the double
  4803839602528529 / 2^58, which is what the period becomes; it is not 1/60.
\<close>

theorem setUpdateFrequency_inexact_counterexample:
  "setUpdateFrequency sampleClient 60
     = Inr (sampleClient\<lparr>mUpdateFrequency := 4803839602528529 / 2 ^ 58\<rparr>)
   \<and> (4803839602528529 / 2 ^ 58 :: rat) \<noteq> 1 / 60
   \<and> setUpdateFrequency sampleClient 60 \<noteq> Inr (sampleClient\<lparr>mUpdateFrequency := 1 / 60\<rparr>)"
  by code_simp

text \<open>
  C7, amended. For every n above 0, setUpdateFrequency sets the update period to the
  double quotient 1.0 / n and changes no other member of the client. That period is
  positive and differs from 1/n seconds by at most 1/n times 2^-53; it is exactly 1/n
  seconds when n is a power of two. For n at most 0 the assertion fails.
\<close>

theorem setUpdateFrequency_sets_rounded_period:
  "(0 < n \<longrightarrow>
      (\<exists>this'. setUpdateFrequency this n = Inr this'
         \<and> this' = this\<lparr>mUpdateFrequency := Time (roundToDouble (1 / of_int n))\<rparr>
         \<and> \<bar>mUpdateFrequency this' - 1 / of_int n\<bar> \<le> (1 / of_int n) / 2 ^ 53
         \<and> 0 < mUpdateFrequency this'))
   \<and> (n = 2 ^ k \<longrightarrow>
        setUpdateFrequency this n = Inr (this\<lparr>mUpdateFrequency := 1 / of_int n\<rparr>))
   \<and> (n \<le> 0 \<longrightarrow> setUpdateFrequency this n = Inl AssertionFailed)"
proof (intro conjI impI)
  assume n: "0 < n"
  then have q: "(0::rat) < 1 / of_int n" by simp
  from n roundToDouble_error [OF q] roundToDouble_pos [OF q]
  show "\<exists>this'. setUpdateFrequency this n = Inr this'
         \<and> this' = this\<lparr>mUpdateFrequency := Time (roundToDouble (1 / of_int n))\<rparr>
         \<and> \<bar>mUpdateFrequency this' - 1 / of_int n\<bar> \<le> (1 / of_int n) / 2 ^ 53
         \<and> 0 < mUpdateFrequency this'"
    by (simp add: setUpdateFrequency_def Time_def)
next
  assume n: "n = 2 ^ k"
  then have "0 < n" by simp
  moreover have "roundToDouble (1 / of_int n) = 1 / of_int n"
    unfolding n using roundToDouble_inverse_power [of k] by simp
  ultimately show "setUpdateFrequency this n = Inr (this\<lparr>mUpdateFrequency := 1 / of_int n\<rparr>)"
    by (simp add: setUpdateFrequency_def Time_def)
next
  assume "n \<le> 0"
  then show "setUpdateFrequency this n = Inl AssertionFailed"
    by (simp add: setUpdateFrequency_def)
qed

theorem setUpdateFrequency_sets_rounded_period_witness:
  "(0::int) < 60
   \<and> (\<exists>this'. setUpdateFrequency sampleClient 60 = Inr this'
         \<and> this' = sampleClient\<lparr>mUpdateFrequency := Time (roundToDouble (1 / of_int 60))\<rparr>
         \<and> \<bar>mUpdateFrequency this' - 1 / of_int 60\<bar> \<le> (1 / of_int 60) / 2 ^ 53
         \<and> 0 < mUpdateFrequency this')
   \<and> (64::int) = 2 ^ 6
   \<and> setUpdateFrequency sampleClient 64 = Inr (sampleClient\<lparr>mUpdateFrequency := 1 / of_int 64\<rparr>)
   \<and> (0::int) \<le> 0
   \<and> setUpdateFrequency sampleClient 0 = Inl AssertionFailed"
proof -
  have a: "(0::int) < 60" and b: "(64::int) = 2 ^ 6" and c: "(0::int) \<le> 0"
    by simp_all
  note t1 = setUpdateFrequency_sets_rounded_period [where n = 60 and this = sampleClient]
  note t2 = setUpdateFrequency_sets_rounded_period
    [where n = 64 and k = 6 and this = sampleClient]
  note t3 = setUpdateFrequency_sets_rounded_period [where n = 0 and this = sampleClient]
  from t1 a have r1: "\<exists>this'. setUpdateFrequency sampleClient 60 = Inr this'
         \<and> this' = sampleClient\<lparr>mUpdateFrequency := Time (roundToDouble (1 / of_int 60))\<rparr>
         \<and> \<bar>mUpdateFrequency this' - 1 / of_int 60\<bar> \<le> (1 / of_int 60) / 2 ^ 53
         \<and> 0 < mUpdateFrequency this'"
    by blast
  from t2 b have r2: "setUpdateFrequency sampleClient 64
      = Inr (sampleClient\<lparr>mUpdateFrequency := 1 / of_int 64\<rparr>)"
    by blast
  from t3 c have r3: "setUpdateFrequency sampleClient 0 = Inl AssertionFailed"
    by blast
  from a b c r1 r2 r3 show ?thesis
    by blast
qed

section \<open>The inner loop\<close>

lemma numSteps_zero: "acc < period \<Longrightarrow> numSteps period acc = 0"
  by (simp add: numSteps_def)

lemma numSteps_Suc:
  assumes "0 < period" and "period \<le> acc"
  shows "numSteps period acc = Suc (numSteps period (acc - period))"
proof -
  have q: "(acc - period) / period = acc / period - 1"
    using assms by (simp add: diff_divide_distrib)
  have one: "1 \<le> acc / period"
    using assms by (simp add: le_divide_eq)
  then have fl: "1 \<le> \<lfloor>acc / period\<rfloor>"
    by (simp add: le_floor_iff)
  have lhs: "numSteps period acc = nat \<lfloor>acc / period\<rfloor>"
    using assms by (simp add: numSteps_def)
  show ?thesis
  proof (cases "acc - period < period")
    case True
    then have "acc / period < 2"
      using assms by (simp add: divide_less_eq)
    then have "\<lfloor>acc / period\<rfloor> < 2"
      by (simp add: floor_less_iff)
    with fl have "\<lfloor>acc / period\<rfloor> = 1" by linarith
    with True lhs show ?thesis by (simp add: numSteps_def)
  next
    case False
    then have "numSteps period (acc - period) = nat (\<lfloor>acc / period\<rfloor> - 1)"
      by (simp add: numSteps_def q)
    moreover from fl have "nat \<lfloor>acc / period\<rfloor> = Suc (nat (\<lfloor>acc / period\<rfloor> - 1))"
      by linarith
    ultimately show ?thesis using lhs by simp
  qed
qed

lemma numSteps_zero_iff:
  assumes "0 < period"
  shows "numSteps period acc = 0 \<longleftrightarrow> acc < period"
proof (cases "acc < period")
  case True
  then show ?thesis by (simp add: numSteps_zero)
next
  case False
  then have "period \<le> acc" by simp
  from numSteps_Suc [OF assms this] False show ?thesis by simp
qed

lemma numSteps_remainder:
  assumes "0 < period"
  shows "acc - of_nat (numSteps period acc) * period < period"
    and "0 \<le> acc \<Longrightarrow> 0 \<le> acc - of_nat (numSteps period acc) * period"
proof -
  show "acc - of_nat (numSteps period acc) * period < period"
  proof (cases "acc < period")
    case True
    then show ?thesis by (simp add: numSteps_def)
  next
    case False
    with assms have "0 \<le> acc / period" by simp
    then have "0 \<le> \<lfloor>acc / period\<rfloor>" by simp
    then have k: "(of_nat (nat \<lfloor>acc / period\<rfloor>) :: rat) = of_int \<lfloor>acc / period\<rfloor>"
      by simp
    have "acc / period < of_int \<lfloor>acc / period\<rfloor> + 1"
      by linarith
    then have "acc < (of_int \<lfloor>acc / period\<rfloor> + 1) * period"
      using assms by (simp add: divide_less_eq)
    with False k show ?thesis
      by (simp add: numSteps_def algebra_simps)
  qed
  show "0 \<le> acc - of_nat (numSteps period acc) * period" if "0 \<le> acc"
  proof (cases "acc < period")
    case True
    with that show ?thesis by (simp add: numSteps_def)
  next
    case False
    with assms have "0 \<le> acc / period" by simp
    then have "0 \<le> \<lfloor>acc / period\<rfloor>" by simp
    then have k: "(of_nat (nat \<lfloor>acc / period\<rfloor>) :: rat) = of_int \<lfloor>acc / period\<rfloor>"
      by simp
    have "of_int \<lfloor>acc / period\<rfloor> \<le> acc / period"
      by simp
    then have "of_int \<lfloor>acc / period\<rfloor> * period \<le> acc"
      using assms by (simp add: le_divide_eq)
    with False k show ?thesis
      by (simp add: numSteps_def)
  qed
qed

lemma length_updateCalls: "length (updateCalls k this n s) = k"
  by (induction k arbitrary: this n s) simp_all

lemma isUpdate_updateCalls: "e \<in> set (updateCalls k this n s) \<Longrightarrow> isUpdate e"
  by (induction k arbitrary: this n s) auto

lemma filter_isUpdate_updateCalls: "filter isUpdate (updateCalls k this n s) = updateCalls k this n s"
  by (induction k arbitrary: this n s) simp_all

lemma drawnInterpolations_append:
  "drawnInterpolations (evs @ evs') = drawnInterpolations evs @ drawnInterpolations evs'"
  by (induction evs rule: drawnInterpolations.induct) simp_all

lemma slowAtDraw_append: "slowAtDraw (evs @ evs') = slowAtDraw evs @ slowAtDraw evs'"
  by (induction evs rule: slowAtDraw.induct) simp_all

lemma presentCalls_append: "presentCalls (evs @ evs') = presentCalls evs @ presentCalls evs'"
  by (induction evs rule: presentCalls.induct) simp_all

lemma sleepCalls_append: "sleepCalls (evs @ evs') = sleepCalls evs @ sleepCalls evs'"
  by (induction evs rule: sleepCalls.induct) simp_all

lemma numUpdateCalls_append: "numUpdateCalls (evs @ evs') = numUpdateCalls evs + numUpdateCalls evs'"
  by (simp add: numUpdateCalls_def)

lemma numUpdateCalls_Cons: "numUpdateCalls (e # evs) = (if isUpdate e then 1 else 0) + numUpdateCalls evs"
  by (simp add: numUpdateCalls_def)

lemma numUpdateCalls_updateCalls: "numUpdateCalls (updateCalls k this n s) = k"
  by (simp add: numUpdateCalls_def filter_isUpdate_updateCalls length_updateCalls)

lemma drawnInterpolations_updateCalls: "drawnInterpolations (updateCalls k this n s) = []"
  by (induction k arbitrary: this n s) simp_all

lemma slowAtDraw_updateCalls: "slowAtDraw (updateCalls k this n s) = []"
  by (induction k arbitrary: this n s) simp_all

lemma presentCalls_updateCalls: "presentCalls (updateCalls k this n s) = []"
  by (induction k arbitrary: this n s) simp_all

lemma sleepCalls_updateCalls: "sleepCalls (updateCalls k this n s) = []"
  by (induction k arbitrary: this n s) simp_all

lemma clientAfter_fields:
  "mUpdateFrequency (clientAfter k this n) = mUpdateFrequency this"
  "mMaximumSleepSkew (clientAfter k this n) = mMaximumSleepSkew this"
  "mpRenderer (clientAfter k this n) = mpRenderer this"
  "mpMainWindow (clientAfter k this n) = mpMainWindow this"
  "mIsGameRunning (clientAfter k this n) = mIsGameRunning this"
  by (simp_all add: clientAfter_def)

lemma clientAfter_slow:
  "mIsRunningSlowly (clientAfter k this n) = (if k = 0 then mIsRunningSlowly this else n + k > 1)"
  by (simp add: clientAfter_def)

lemma loopAfter_fields:
  "simulationTime (loopAfter k period ls) = simulationTime ls + of_nat k * period"
  "accumulatedTime (loopAfter k period ls) = accumulatedTime ls - of_nat k * period"
  "systemTime (loopAfter k period ls) = systemTime ls"
  by (simp_all add: loopAfter_def)

text \<open>
  With a positive period the inner loop ends, after \<open>numSteps\<close> rounds, each of which
  calls update once, moves one period from the accumulated time to the simulation time
  and sets the flag to whether it was not the first round.
\<close>

lemma drainAccumulator_steps:
  assumes "0 < mUpdateFrequency this"
    and "numSteps (mUpdateFrequency this) (accumulatedTime ls) = k"
  shows "drainAccumulator this n ls evs =
           Some (clientAfter k this n, n + k, loopAfter k (mUpdateFrequency this) ls,
                 evs @ updateCalls k this n (simulationTime ls))"
  using assms
proof (induction k arbitrary: this n ls evs)
  case 0
  then have "accumulatedTime ls < mUpdateFrequency this"
    by (simp add: numSteps_zero_iff)
  then show ?case
    by (subst drainAccumulator.simps) (simp add: clientAfter_def loopAfter_def)
next
  case (Suc k)
  let ?P = "mUpdateFrequency this"
  let ?this1 = "this\<lparr>mIsRunningSlowly := (n > 0)\<rparr>"
  let ?ls2 = "ls\<lparr>simulationTime := simulationTime ls + ?P,
                  accumulatedTime := accumulatedTime ls - ?P\<rparr>"
  from Suc.prems have ge: "?P \<le> accumulatedTime ls"
    using numSteps_zero [of "accumulatedTime ls" ?P] by (cases "accumulatedTime ls < ?P") simp_all
  with Suc.prems have k: "numSteps (mUpdateFrequency ?this1) (accumulatedTime ?ls2) = k"
    using numSteps_Suc [of ?P "accumulatedTime ls"] by simp
  have pos: "0 < mUpdateFrequency ?this1"
    using Suc.prems by simp
  have unfold: "drainAccumulator this n ls evs =
      drainAccumulator ?this1 (n + 1) ?ls2 (evs @ [Update ?this1 (simulationTime ls) ?P])"
    using ge by (subst drainAccumulator.simps) (simp add: Let_def)
  have c: "clientAfter k ?this1 (n + 1) = clientAfter (Suc k) this n"
    by (cases k) (auto simp: clientAfter_def)
  have l: "loopAfter k (mUpdateFrequency ?this1) ?ls2 = loopAfter (Suc k) ?P ls"
    by (simp add: loopAfter_def algebra_simps)
  show ?case
    unfolding unfold Suc.IH [OF pos k] c l by simp
qed

text \<open>
  With a period that is not positive, the inner loop never leaves once it is entered: a
  call that returns has found the accumulated time below the period at once.
\<close>

lemma drainAccumulator_Some_exit:
  assumes "drainAccumulator this n ls evs = Some r"
  shows "\<not> (mUpdateFrequency this \<le> 0 \<and> mUpdateFrequency this \<le> accumulatedTime ls)"
proof (rule drainAccumulator.raw_induct
    [where P = "\<lambda>this n ls evs r.
        \<not> (mUpdateFrequency this \<le> 0 \<and> mUpdateFrequency this \<le> accumulatedTime ls)",
     OF _ assms], goal_cases)
  case (1 f this' n' ls' evs' r')
  show ?case
  proof
    assume a: "mUpdateFrequency this' \<le> 0 \<and> mUpdateFrequency this' \<le> accumulatedTime ls'"
    let ?this1 = "this'\<lparr>mIsRunningSlowly := (n' > 0)\<rparr>"
    let ?ls2 = "ls'\<lparr>simulationTime := simulationTime ls' + mUpdateFrequency this',
                    accumulatedTime := accumulatedTime ls' - mUpdateFrequency this'\<rparr>"
    from a 1(2) have
      "f ?this1 (n' + 1) ?ls2 (evs' @ [Update ?this1 (simulationTime ls') (mUpdateFrequency this')])
        = Some r'"
      by (simp add: Let_def)
    from 1(1) [OF this] a show False by simp
  qed
qed

lemma drainAccumulator_diverges:
  assumes "mUpdateFrequency this \<le> 0" and "mUpdateFrequency this \<le> accumulatedTime ls"
  shows "drainAccumulator this n ls evs = None"
proof (cases "drainAccumulator this n ls evs")
  case None
  then show ?thesis .
next
  case (Some r)
  from drainAccumulator_Some_exit [OF Some] assms show ?thesis by simp
qed

section \<open>One frame\<close>

lemma clampedFrameTime_le: "clampedFrameTime s t \<le> Time (1 / 4)"
  by (simp add: clampedFrameTime_def Let_def)

lemma clampedFrameTime_clamps: "t - s > Time (1 / 4) \<Longrightarrow> clampedFrameTime s t = Time (1 / 4)"
  by (simp add: clampedFrameTime_def Let_def)

lemma clampedFrameTime_id: "t - s \<le> Time (1 / 4) \<Longrightarrow> clampedFrameTime s t = t - s"
  by (simp add: clampedFrameTime_def Let_def)

lemma clampedFrameTime_nonneg: "s \<le> t \<Longrightarrow> 0 \<le> clampedFrameTime s t"
  by (simp add: clampedFrameTime_def Let_def Time_def)

lemma simulateFrame_eq:
  assumes "0 < mUpdateFrequency this"
  shows "simulateFrame this ls newTime =
           Some (clientAfter (frameSteps this ls newTime) this 0,
                 frameSteps this ls newTime,
                 loopAfter (frameSteps this ls newTime) (mUpdateFrequency this)
                   (ls\<lparr>systemTime := newTime,
                       accumulatedTime := accumulatedTime ls
                         + clampedFrameTime (systemTime ls) newTime\<rparr>),
                 ProcessMessages (mpMainWindow this)
                 # updateCalls (frameSteps this ls newTime) this 0 (simulationTime ls))"
  unfolding simulateFrame_def Let_def
  by (subst drainAccumulator_steps [OF assms, where k = "frameSteps this ls newTime"])
     (simp_all add: frameSteps_def)

lemma frameBody_eq:
  assumes "0 < mUpdateFrequency this"
  shows "frameBody this ls newTime =
           Some (clientAfterFrame this ls newTime, loopAfterFrame this ls newTime,
                 ProcessMessages (mpMainWindow this)
                 # updateCalls (frameSteps this ls newTime) this 0 (simulationTime ls)
                 @ renderFrame (clientAfterFrame this ls newTime) (loopAfterFrame this ls newTime))"
  by (simp add: frameBody_def simulateFrame_eq [OF assms] clientAfterFrame_def loopAfterFrame_def)

lemma frame_eq:
  assumes "0 < mUpdateFrequency this"
  shows "frame this ls newTime =
           Some (clientAfterFrame this ls newTime, loopAfterFrame this ls newTime,
                 ProcessMessages (mpMainWindow this)
                 # updateCalls (frameSteps this ls newTime) this 0 (simulationTime ls)
                 @ renderFrame (clientAfterFrame this ls newTime) (loopAfterFrame this ls newTime)
                 @ endOfFrameSleep (clientAfterFrame this ls newTime) (loopAfterFrame this ls newTime))"
  by (simp add: frame_def frameBody_eq [OF assms])

lemma numUpdateCalls_renderFrame: "numUpdateCalls (renderFrame this ls) = 0"
  by (simp add: renderFrame_def numUpdateCalls_def)

lemma numUpdateCalls_endOfFrameSleep: "numUpdateCalls (endOfFrameSleep this ls) = 0"
  by (simp add: endOfFrameSleep_def numUpdateCalls_def)

lemma numUpdateCalls_frame:
  assumes "0 < mUpdateFrequency this" and "frame this ls newTime = Some (this', ls', evs)"
  shows "numUpdateCalls evs = frameSteps this ls newTime"
  using assms(2) unfolding frame_eq [OF assms(1)]
  by (auto simp: numUpdateCalls_Cons numUpdateCalls_append numUpdateCalls_updateCalls
        numUpdateCalls_renderFrame numUpdateCalls_endOfFrameSleep)

lemma clientAfterFrame_fields:
  "mUpdateFrequency (clientAfterFrame this ls newTime) = mUpdateFrequency this"
  "mMaximumSleepSkew (clientAfterFrame this ls newTime) = mMaximumSleepSkew this"
  "mpRenderer (clientAfterFrame this ls newTime) = mpRenderer this"
  "mpMainWindow (clientAfterFrame this ls newTime) = mpMainWindow this"
  "mIsGameRunning (clientAfterFrame this ls newTime) = mIsGameRunning this"
  by (simp_all add: clientAfterFrame_def clientAfter_fields)

lemma loopAfterFrame_fields:
  "simulationTime (loopAfterFrame this ls newTime) =
     simulationTime ls + of_nat (frameSteps this ls newTime) * mUpdateFrequency this"
  "accumulatedTime (loopAfterFrame this ls newTime) =
     accumulatedTime ls + clampedFrameTime (systemTime ls) newTime
       - of_nat (frameSteps this ls newTime) * mUpdateFrequency this"
  "systemTime (loopAfterFrame this ls newTime) = newTime"
  by (simp_all add: loopAfterFrame_def loopAfter_fields)

lemma loopAfterFrame_less:
  assumes "0 < mUpdateFrequency this"
  shows "accumulatedTime (loopAfterFrame this ls newTime) < mUpdateFrequency this"
  unfolding loopAfterFrame_fields frameSteps_def
  by (rule numSteps_remainder(1) [OF assms])

lemma loopAfterFrame_nonneg:
  assumes "0 < mUpdateFrequency this"
    and "0 \<le> accumulatedTime ls + clampedFrameTime (systemTime ls) newTime"
  shows "0 \<le> accumulatedTime (loopAfterFrame this ls newTime)"
  unfolding loopAfterFrame_fields frameSteps_def
  by (rule numSteps_remainder(2) [OF assms])

text \<open>
  C4. In every iteration of the main loop the frame time that is added to the accumulator
  is at most 0.25 seconds, and it is exactly 0.25 seconds when the measured frame time
  exceeds that. With a positive update period the iteration ends, and over the whole
  iteration the accumulated time grows by that clamped frame time less one update period
  per call of update, so by no more than 0.25 seconds.
\<close>

theorem frame_accumulates_clamped:
  assumes "0 < mUpdateFrequency this"
  shows "clampedFrameTime (systemTime ls) newTime \<le> Time (1 / 4)
       \<and> (newTime - systemTime ls > Time (1 / 4)
            \<longrightarrow> clampedFrameTime (systemTime ls) newTime = Time (1 / 4))
       \<and> (\<exists>this' ls' evs.
             frame this ls newTime = Some (this', ls', evs)
           \<and> accumulatedTime ls' + of_nat (numUpdateCalls evs) * mUpdateFrequency this
               = accumulatedTime ls + clampedFrameTime (systemTime ls) newTime
           \<and> accumulatedTime ls' \<le> accumulatedTime ls + Time (1 / 4))"
proof (intro conjI impI)
  show "clampedFrameTime (systemTime ls) newTime \<le> Time (1 / 4)"
    by (rule clampedFrameTime_le)
  show "clampedFrameTime (systemTime ls) newTime = Time (1 / 4)"
    if "newTime - systemTime ls > Time (1 / 4)"
    using that by (rule clampedFrameTime_clamps)
  let ?k = "frameSteps this ls newTime"
  let ?P = "mUpdateFrequency this"
  obtain this' ls' evs where fr: "frame this ls newTime = Some (this', ls', evs)"
    and ls': "ls' = loopAfterFrame this ls newTime"
    using frame_eq [OF assms] by blast
  have n: "numUpdateCalls evs = ?k"
    using assms fr by (rule numUpdateCalls_frame)
  have acc: "accumulatedTime ls' =
      accumulatedTime ls + clampedFrameTime (systemTime ls) newTime - of_nat ?k * ?P"
    by (simp add: ls' loopAfterFrame_def loopAfter_fields)
  have "0 \<le> of_nat ?k * ?P"
    using assms by simp
  with acc have "accumulatedTime ls' \<le> accumulatedTime ls + clampedFrameTime (systemTime ls) newTime"
    by linarith
  with clampedFrameTime_le [of "systemTime ls" newTime]
  have le: "accumulatedTime ls' \<le> accumulatedTime ls + Time (1 / 4)"
    by linarith
  from fr n acc le
  show "\<exists>this' ls' evs.
             frame this ls newTime = Some (this', ls', evs)
           \<and> accumulatedTime ls' + of_nat (numUpdateCalls evs) * mUpdateFrequency this
               = accumulatedTime ls + clampedFrameTime (systemTime ls) newTime
           \<and> accumulatedTime ls' \<le> accumulatedTime ls + Time (1 / 4)"
    by simp
qed

theorem frame_accumulates_clamped_witness:
  "0 < mUpdateFrequency sampleClient
   \<and> clampedFrameTime (systemTime (loopStart 0)) 1 \<le> Time (1 / 4)
   \<and> 1 - systemTime (loopStart 0) > Time (1 / 4)
   \<and> clampedFrameTime (systemTime (loopStart 0)) 1 = Time (1 / 4)
   \<and> (\<exists>this' ls' evs.
         frame sampleClient (loopStart 0) 1 = Some (this', ls', evs)
       \<and> accumulatedTime ls' + of_nat (numUpdateCalls evs) * mUpdateFrequency sampleClient
           = accumulatedTime (loopStart 0) + clampedFrameTime (systemTime (loopStart 0)) 1
       \<and> accumulatedTime ls' \<le> accumulatedTime (loopStart 0) + Time (1 / 4))"
proof -
  note h = sampleClient_period
  have g: "1 - systemTime (loopStart 0) > Time (1 / 4)"
    by (simp add: loopStart_def Time_def)
  from frame_accumulates_clamped [OF h, of "loopStart 0" 1] h g show ?thesis
    by blast
qed

lemma sleepCalls_frameBody:
  assumes "0 < mUpdateFrequency this" and "frameBody this ls newTime = Some (this', ls', evs)"
  shows "sleepCalls evs = []"
  using assms(2) unfolding frameBody_eq [OF assms(1)]
  by (auto simp: sleepCalls_append sleepCalls_updateCalls renderFrame_def)

text \<open>
  C9. In every iteration with a positive update period, the sleep at the end is called
  exactly when the accumulated time plus the maximum sleep skew is below the update
  period, and nowhere else in the iteration. The iteration with its last statement and
  the iteration without it end with the same client, "running slowly" flag included, the
  same simulation time and accumulated time, and the same calls of update in the same
  order.
\<close>

theorem sleep_changes_nothing:
  assumes "0 < mUpdateFrequency this"
  shows "\<exists>this' ls' evs evs'.
           frameBody this ls newTime = Some (this', ls', evs)
         \<and> frame this ls newTime = Some (this', ls', evs')
         \<and> sleepCalls evs = []
         \<and> sleepCalls evs' =
             (if accumulatedTime ls' + mMaximumSleepSkew this' < mUpdateFrequency this'
              then [Time 2] else [])
         \<and> filter isUpdate evs' = filter isUpdate evs"
proof -
  obtain this' ls' evs where fb: "frameBody this ls newTime = Some (this', ls', evs)"
    using frameBody_eq [OF assms] by blast
  then have fr: "frame this ls newTime = Some (this', ls', evs @ endOfFrameSleep this' ls')"
    by (simp add: frame_def)
  have s0: "sleepCalls evs = []"
    using assms fb by (rule sleepCalls_frameBody)
  have s1: "sleepCalls (evs @ endOfFrameSleep this' ls') =
      (if accumulatedTime ls' + mMaximumSleepSkew this' < mUpdateFrequency this'
       then [Time 2] else [])"
    by (simp add: sleepCalls_append s0 endOfFrameSleep_def)
  have u: "filter isUpdate (evs @ endOfFrameSleep this' ls') = filter isUpdate evs"
    by (simp add: endOfFrameSleep_def)
  from fb fr s0 s1 u show ?thesis by blast
qed

theorem sleep_changes_nothing_witness:
  "0 < mUpdateFrequency sampleClient
   \<and> (\<exists>this' ls' evs evs'.
           frameBody sampleClient (loopStart 0) (1 / 1000) = Some (this', ls', evs)
         \<and> frame sampleClient (loopStart 0) (1 / 1000) = Some (this', ls', evs')
         \<and> sleepCalls evs = []
         \<and> sleepCalls evs' =
             (if accumulatedTime ls' + mMaximumSleepSkew this' < mUpdateFrequency this'
              then [Time 2] else [])
         \<and> filter isUpdate evs' = filter isUpdate evs)"
proof -
  note h = sampleClient_period
  from sleep_changes_nothing [OF h, of "loopStart 0" "1 / 1000"] h show ?thesis
    by blast
qed

lemma slowAtDraw_frame:
  assumes "0 < mUpdateFrequency this" and "frame this ls newTime = Some (this', ls', evs)"
  shows "slowAtDraw evs = [mIsRunningSlowly this']"
  using assms(2) unfolding frame_eq [OF assms(1)]
  by (auto simp: slowAtDraw_append slowAtDraw_updateCalls renderFrame_def endOfFrameSleep_def)

lemma slow_after_frame:
  assumes "0 < mUpdateFrequency this" and "frame this ls newTime = Some (this', ls', evs)"
  shows "mIsRunningSlowly this' =
           (if numUpdateCalls evs = 0 then mIsRunningSlowly this else 1 < numUpdateCalls evs)"
proof -
  have "this' = clientAfterFrame this ls newTime"
    using assms(2) unfolding frame_eq [OF assms(1)] by simp
  then show ?thesis
    by (simp add: numUpdateCalls_frame [OF assms] clientAfterFrame_def clientAfter_slow)
qed

text \<open>
  C6 as stated fails. With the default period of 1/50 s, a first frame of 1/20 s calls
  update twice and leaves the flag set and 1/100 s in the accumulator. A second frame of
  1/1000 s calls update not at all, and draw still sees the flag set.
\<close>

theorem slow_flag_stale_counterexample:
  "map_option fst (frame (sampleClient\<lparr>mIsGameRunning := True\<rparr>) (loopStart 0) (1 / 20))
     = Some (sampleClient\<lparr>mIsGameRunning := True, mIsRunningSlowly := True\<rparr>)
   \<and> map_option (fst \<circ> snd) (frame (sampleClient\<lparr>mIsGameRunning := True\<rparr>) (loopStart 0) (1 / 20))
     = Some \<lparr>simulationTime = 1 / 25, accumulatedTime = 1 / 100, systemTime = 1 / 20\<rparr>
   \<and> map_option (slowAtDraw \<circ> snd \<circ> snd)
       (frame (sampleClient\<lparr>mIsGameRunning := True, mIsRunningSlowly := True\<rparr>)
          \<lparr>simulationTime = 1 / 25, accumulatedTime = 1 / 100, systemTime = 1 / 20\<rparr>
          (51 / 1000))
     = Some [True]
   \<and> map_option (numUpdateCalls \<circ> snd \<circ> snd)
       (frame (sampleClient\<lparr>mIsGameRunning := True, mIsRunningSlowly := True\<rparr>)
          \<lparr>simulationTime = 1 / 25, accumulatedTime = 1 / 100, systemTime = 1 / 20\<rparr>
          (51 / 1000))
     = Some 0"
  by code_simp

text \<open>
  C6, amended. Every iteration with a positive update period ends and calls draw once.
  When update is called at least once in the iteration, the "running slowly" flag of the
  client at the call of draw is true if and only if update was called more than once in
  that iteration.
\<close>

theorem slow_flag_after_updates:
  assumes "0 < mUpdateFrequency this"
  shows "\<exists>this' ls' evs b.
           frame this ls newTime = Some (this', ls', evs)
         \<and> slowAtDraw evs = [b]
         \<and> (1 \<le> numUpdateCalls evs \<longrightarrow> (b \<longleftrightarrow> 1 < numUpdateCalls evs))"
proof -
  obtain this' ls' evs where fr: "frame this ls newTime = Some (this', ls', evs)"
    using frame_eq [OF assms] by blast
  have d: "slowAtDraw evs = [mIsRunningSlowly this']"
    using assms fr by (rule slowAtDraw_frame)
  have "1 \<le> numUpdateCalls evs \<longrightarrow> (mIsRunningSlowly this' \<longleftrightarrow> 1 < numUpdateCalls evs)"
    using slow_after_frame [OF assms fr] by simp
  with fr d show ?thesis by blast
qed

theorem slow_flag_after_updates_witness:
  "0 < mUpdateFrequency sampleClient
   \<and> (\<exists>this' ls' evs b.
           frame sampleClient (loopStart 0) (1 / 20) = Some (this', ls', evs)
         \<and> slowAtDraw evs = [b]
         \<and> 1 \<le> numUpdateCalls evs
         \<and> (b \<longleftrightarrow> 1 < numUpdateCalls evs))"
proof -
  note h = sampleClient_period
  have n: "map_option (numUpdateCalls \<circ> snd \<circ> snd) (frame sampleClient (loopStart 0) (1 / 20)) = Some 2"
    by code_simp
  from slow_flag_after_updates [OF h, of "loopStart 0" "1 / 20"]
  obtain this' ls' evs b where
    fr: "frame sampleClient (loopStart 0) (1 / 20) = Some (this', ls', evs)"
    and d: "slowAtDraw evs = [b]"
    and imp: "1 \<le> numUpdateCalls evs \<longrightarrow> (b \<longleftrightarrow> 1 < numUpdateCalls evs)"
    by blast
  from n fr have "1 \<le> numUpdateCalls evs" by simp
  with h fr d imp show ?thesis by blast
qed

section \<open>The main loop\<close>

lemma mainLoop_Cons_eq:
  assumes "0 < mUpdateFrequency this" and "mIsGameRunning this"
  shows "mainLoop this ls (newTime # clock) =
           (case mainLoop (clientAfterFrame this ls newTime) (loopAfterFrame this ls newTime) clock of
              None \<Rightarrow> None
            | Some (this'', ls'', evs') \<Rightarrow>
                Some (this'', ls'',
                      (ProcessMessages (mpMainWindow this)
                       # updateCalls (frameSteps this ls newTime) this 0 (simulationTime ls)
                       @ renderFrame (clientAfterFrame this ls newTime) (loopAfterFrame this ls newTime)
                       @ endOfFrameSleep (clientAfterFrame this ls newTime)
                           (loopAfterFrame this ls newTime))
                      @ evs'))"
  using assms(2) by (simp add: frame_eq [OF assms(1)])

text \<open>With a positive period the whole loop ends, whatever the clock reads.\<close>

lemma mainLoop_total:
  assumes "0 < mUpdateFrequency this" and "mIsGameRunning this"
  shows "\<exists>this' ls' evs. mainLoop this ls clock = Some (this', ls', evs)"
  using assms
proof (induction clock arbitrary: this ls)
  case Nil
  show ?case by simp
next
  case (Cons newTime clock)
  have "\<exists>this' ls' evs.
      mainLoop (clientAfterFrame this ls newTime) (loopAfterFrame this ls newTime) clock
        = Some (this', ls', evs)"
    by (rule Cons.IH) (simp_all add: clientAfterFrame_fields Cons.prems)
  then show ?case
    unfolding mainLoop_Cons_eq [OF Cons.prems] by auto
qed

text \<open>What one run of the loop adds up to, for frame times that are never clamped.\<close>

lemma mainLoop_sums:
  assumes "0 < mUpdateFrequency this" and "mIsGameRunning this"
    and "\<forall>ft \<in> set (frameTimes (systemTime ls) clock). ft \<le> 1 / 4"
    and "mainLoop this ls clock = Some (this', ls', evs)"
  shows "simulationTime ls' = simulationTime ls + of_nat (numUpdateCalls evs) * mUpdateFrequency this
       \<and> accumulatedTime ls' = accumulatedTime ls + sum_list (frameTimes (systemTime ls) clock)
            - of_nat (numUpdateCalls evs) * mUpdateFrequency this"
  using assms
proof (induction clock arbitrary: this ls this' ls' evs)
  case Nil
  then show ?case by (simp add: numUpdateCalls_def)
next
  case (Cons newTime clock)
  let ?c = "clientAfterFrame this ls newTime"
  let ?l = "loopAfterFrame this ls newTime"
  let ?k = "frameSteps this ls newTime"
  let ?P = "mUpdateFrequency this"
  from Cons.prems(4) obtain evs' where
    rest: "mainLoop ?c ?l clock = Some (this', ls', evs')"
    and evs: "evs = (ProcessMessages (mpMainWindow this)
                       # updateCalls ?k this 0 (simulationTime ls)
                       @ renderFrame ?c ?l @ endOfFrameSleep ?c ?l) @ evs'"
    unfolding mainLoop_Cons_eq [OF Cons.prems(1,2)]
    by (auto split: option.splits)
  have n: "numUpdateCalls evs = ?k + numUpdateCalls evs'"
    unfolding evs
    by (simp add: numUpdateCalls_Cons numUpdateCalls_append numUpdateCalls_updateCalls
          numUpdateCalls_renderFrame numUpdateCalls_endOfFrameSleep)
  have ft: "clampedFrameTime (systemTime ls) newTime = newTime - systemTime ls"
    using Cons.prems(3) by (simp add: clampedFrameTime_id Time_def)
  have ih: "simulationTime ls' = simulationTime ?l + of_nat (numUpdateCalls evs') * mUpdateFrequency ?c
       \<and> accumulatedTime ls' = accumulatedTime ?l + sum_list (frameTimes (systemTime ?l) clock)
            - of_nat (numUpdateCalls evs') * mUpdateFrequency ?c"
    using Cons.prems(1,2,3) rest
    by (intro Cons.IH) (simp_all add: clientAfterFrame_fields loopAfterFrame_fields)
  then show ?case
    by (simp add: n ft clientAfterFrame_fields loopAfterFrame_fields algebra_simps)
qed

text \<open>
  While the clock does not run backwards the accumulated time stays at or above zero, and
  after each frame it is below the period, so every interpolation is above 0 and at
  most 1.
\<close>

lemma mainLoop_bounds:
  assumes "0 < mUpdateFrequency this" and "mIsGameRunning this"
    and "\<forall>ft \<in> set (frameTimes (systemTime ls) clock). 0 \<le> ft"
    and "0 \<le> accumulatedTime ls"
    and "mainLoop this ls clock = Some (this', ls', evs)"
  shows "0 \<le> accumulatedTime ls'
       \<and> (accumulatedTime ls < mUpdateFrequency this \<longrightarrow> accumulatedTime ls' < mUpdateFrequency this)
       \<and> (\<forall>v \<in> set (drawnInterpolations evs). \<exists>i. v = Finite i \<and> 0 < i \<and> i \<le> 1)"
  using assms
proof (induction clock arbitrary: this ls this' ls' evs)
  case Nil
  then show ?case by simp
next
  case (Cons newTime clock)
  let ?c = "clientAfterFrame this ls newTime"
  let ?l = "loopAfterFrame this ls newTime"
  let ?k = "frameSteps this ls newTime"
  let ?P = "mUpdateFrequency this"
  from Cons.prems(5) obtain evs' where
    rest: "mainLoop ?c ?l clock = Some (this', ls', evs')"
    and evs: "evs = (ProcessMessages (mpMainWindow this)
                       # updateCalls ?k this 0 (simulationTime ls)
                       @ renderFrame ?c ?l @ endOfFrameSleep ?c ?l) @ evs'"
    unfolding mainLoop_Cons_eq [OF Cons.prems(1,2)]
    by (auto split: option.splits)
  have ft: "0 \<le> clampedFrameTime (systemTime ls) newTime"
    using Cons.prems(3) by (simp add: clampedFrameTime_nonneg)
  with Cons.prems(4) have "0 \<le> accumulatedTime ls + clampedFrameTime (systemTime ls) newTime"
    by simp
  then have nonneg: "0 \<le> accumulatedTime ?l"
    by (rule loopAfterFrame_nonneg [OF Cons.prems(1)])
  have less: "accumulatedTime ?l < ?P"
    by (rule loopAfterFrame_less [OF Cons.prems(1)])
  have ih: "0 \<le> accumulatedTime ls'
       \<and> (accumulatedTime ?l < mUpdateFrequency ?c \<longrightarrow> accumulatedTime ls' < mUpdateFrequency ?c)
       \<and> (\<forall>v \<in> set (drawnInterpolations evs'). \<exists>i. v = Finite i \<and> 0 < i \<and> i \<le> 1)"
    using Cons.prems(1,2,3) nonneg rest
    by (intro Cons.IH) (simp_all add: clientAfterFrame_fields loopAfterFrame_fields)
  have d: "drawnInterpolations evs =
      interpolation (accumulatedTime ?l) ?P # drawnInterpolations evs'"
    unfolding evs
    by (simp add: drawnInterpolations_append drawnInterpolations_updateCalls renderFrame_def
          endOfFrameSleep_def clientAfterFrame_fields)
  have i: "\<exists>i. interpolation (accumulatedTime ?l) ?P = Finite i \<and> 0 < i \<and> i \<le> 1"
    using Cons.prems(1) nonneg less
    by (simp add: interpolation_def toDouble_def)
  from ih d i less show ?case
    by (simp add: clientAfterFrame_fields)
qed

lemma mainLoop_draws:
  assumes "0 < mUpdateFrequency this" and "mIsGameRunning this"
    and "mainLoop this ls clock = Some (this', ls', evs)"
  shows "length (drawnInterpolations evs) = length clock"
  using assms
proof (induction clock arbitrary: this ls this' ls' evs)
  case Nil
  then show ?case by simp
next
  case (Cons newTime clock)
  let ?c = "clientAfterFrame this ls newTime"
  let ?l = "loopAfterFrame this ls newTime"
  from Cons.prems(3) obtain evs' where
    rest: "mainLoop ?c ?l clock = Some (this', ls', evs')"
    and evs: "evs = (ProcessMessages (mpMainWindow this)
                       # updateCalls (frameSteps this ls newTime) this 0 (simulationTime ls)
                       @ renderFrame ?c ?l @ endOfFrameSleep ?c ?l) @ evs'"
    unfolding mainLoop_Cons_eq [OF Cons.prems(1,2)]
    by (auto split: option.splits)
  have "length (drawnInterpolations evs') = length clock"
    using Cons.prems(1,2) rest
    by (intro Cons.IH) (simp_all add: clientAfterFrame_fields)
  then show ?case
    unfolding evs
    by (simp add: drawnInterpolations_append drawnInterpolations_updateCalls renderFrame_def
          endOfFrameSleep_def)
qed

text \<open>
  C2. Take clock readings whose frame times all lie between 0 and 0.25 seconds and sum to
  T, and a positive update period P. The main loop ends, it calls update exactly
  floor(T/P) times in total, and the simulation time after the last frame is that count
  times P.
\<close>

theorem update_count_is_floor:
  assumes "0 < mUpdateFrequency this"
    and "\<forall>ft \<in> set (frameTimes startTime clock). 0 \<le> ft \<and> ft \<le> 1 / 4"
  shows "\<exists>this' ls' evs.
           mainLoop (this\<lparr>mIsGameRunning := True\<rparr>) (loopStart startTime) clock
             = Some (this', ls', evs)
         \<and> runMainGameLoop this startTime clock = Some (EPROGRAM_OK, this', evs)
         \<and> int (numUpdateCalls evs)
             = \<lfloor>sum_list (frameTimes startTime clock) / mUpdateFrequency this\<rfloor>
         \<and> simulationTime ls' = of_nat (numUpdateCalls evs) * mUpdateFrequency this"
proof -
  let ?c = "this\<lparr>mIsGameRunning := True\<rparr>"
  let ?ls = "loopStart startTime"
  let ?P = "mUpdateFrequency this"
  let ?T = "sum_list (frameTimes startTime clock)"
  have P: "0 < mUpdateFrequency ?c" and r: "mIsGameRunning ?c"
    using assms(1) by simp_all
  obtain this' ls' evs where ml: "mainLoop ?c ?ls clock = Some (this', ls', evs)"
    using mainLoop_total [OF P r] by blast
  have rl: "runMainGameLoop this startTime clock = Some (EPROGRAM_OK, this', evs)"
    by (simp add: runMainGameLoop_def ml)
  have le: "\<forall>ft \<in> set (frameTimes (systemTime ?ls) clock). ft \<le> 1 / 4"
    and ge: "\<forall>ft \<in> set (frameTimes (systemTime ?ls) clock). 0 \<le> ft"
    using assms(2) by (simp_all add: loopStart_def)
  have acc0: "0 \<le> accumulatedTime ?ls"
    by (simp add: loopStart_def Time_def)
  from mainLoop_sums [OF P r le ml]
  have sim: "simulationTime ls' = of_nat (numUpdateCalls evs) * ?P"
    and acc: "accumulatedTime ls' = ?T - of_nat (numUpdateCalls evs) * ?P"
    by (simp_all add: loopStart_def Time_def)
  from mainLoop_bounds [OF P r ge acc0 ml] assms(1)
  have lo: "0 \<le> accumulatedTime ls'" and hi: "accumulatedTime ls' < ?P"
    by (simp_all add: loopStart_def Time_def)
  from lo acc have "of_nat (numUpdateCalls evs) * ?P \<le> ?T"
    by simp
  then have a: "of_int (int (numUpdateCalls evs)) \<le> ?T / ?P"
    using assms(1) by (simp add: le_divide_eq)
  from hi acc have "?T < (of_nat (numUpdateCalls evs) + 1) * ?P"
    by (simp add: algebra_simps)
  then have b: "?T / ?P < of_int (int (numUpdateCalls evs)) + 1"
    using assms(1) by (simp add: divide_less_eq)
  from a b have "\<lfloor>?T / ?P\<rfloor> = int (numUpdateCalls evs)"
    by (rule floor_unique)
  with ml rl sim show ?thesis
    by simp
qed

theorem update_count_is_floor_witness:
  "0 < mUpdateFrequency sampleClient
   \<and> frameTimes 0 [1 / 20, 3 / 50, 2 / 25] = [1 / 20, 1 / 100, 1 / 50]
   \<and> sum_list (frameTimes 0 [1 / 20, 3 / 50, 2 / 25]) = 2 / 25
   \<and> (\<exists>this' ls' evs.
           mainLoop (sampleClient\<lparr>mIsGameRunning := True\<rparr>) (loopStart 0) [1 / 20, 3 / 50, 2 / 25]
             = Some (this', ls', evs)
         \<and> runMainGameLoop sampleClient 0 [1 / 20, 3 / 50, 2 / 25] = Some (EPROGRAM_OK, this', evs)
         \<and> int (numUpdateCalls evs)
             = \<lfloor>sum_list (frameTimes 0 [1 / 20, 3 / 50, 2 / 25]) / mUpdateFrequency sampleClient\<rfloor>
         \<and> simulationTime ls' = of_nat (numUpdateCalls evs) * mUpdateFrequency sampleClient)"
proof -
  note h = sampleClient_period
  have g: "\<forall>ft \<in> set (frameTimes 0 [1 / 20, 3 / 50, 2 / 25]). 0 \<le> ft \<and> ft \<le> 1 / 4"
    by simp
  have f: "frameTimes 0 [1 / 20, 3 / 50, 2 / 25] = [1 / 20, 1 / 100, 1 / 50 :: Time]"
    by simp
  have s: "sum_list (frameTimes 0 [1 / 20, 3 / 50, 2 / 25]) = 2 / 25"
    by simp
  from update_count_is_floor [OF h g] h f s show ?thesis
    by blast
qed

text \<open>
  C3 as stated fails. With the default period of 1/50 s and a single frame of 1/50 s the
  inner loop leaves an accumulated time of zero, and draw is called with the
  interpolation 1, which is outside the interval from 0 up to but excluding 1.
\<close>

theorem interpolation_one_counterexample:
  "map_option (drawnInterpolations \<circ> snd \<circ> snd)
     (runMainGameLoop sampleClient 0 [1 / 50]) = Some [Finite 1]
   \<and> \<not> ((0::rat) \<le> 1 \<and> (1::rat) < 1)"
  by code_simp

text \<open>
  C3, amended. In a run with a positive update period whose clock readings never
  decrease, draw is called once per frame, and on every frame the interpolation passed to
  it, computed right after the inner loop, is a number above 0 and at most 1.
\<close>

theorem interpolation_in_unit_interval:
  assumes "0 < mUpdateFrequency this"
    and "\<forall>ft \<in> set (frameTimes startTime clock). 0 \<le> ft"
  shows "\<exists>st this' evs.
           runMainGameLoop this startTime clock = Some (st, this', evs)
         \<and> length (drawnInterpolations evs) = length clock
         \<and> (\<forall>v \<in> set (drawnInterpolations evs). \<exists>i. v = Finite i \<and> 0 < i \<and> i \<le> 1)"
proof -
  let ?c = "this\<lparr>mIsGameRunning := True\<rparr>"
  let ?ls = "loopStart startTime"
  have P: "0 < mUpdateFrequency ?c" and r: "mIsGameRunning ?c"
    using assms(1) by simp_all
  obtain this' ls' evs where ml: "mainLoop ?c ?ls clock = Some (this', ls', evs)"
    using mainLoop_total [OF P r] by blast
  have rl: "runMainGameLoop this startTime clock = Some (EPROGRAM_OK, this', evs)"
    by (simp add: runMainGameLoop_def ml)
  have ge: "\<forall>ft \<in> set (frameTimes (systemTime ?ls) clock). 0 \<le> ft"
    using assms(2) by (simp add: loopStart_def)
  have acc0: "0 \<le> accumulatedTime ?ls"
    by (simp add: loopStart_def Time_def)
  have len: "length (drawnInterpolations evs) = length clock"
    using P r ml by (rule mainLoop_draws)
  from mainLoop_bounds [OF P r ge acc0 ml]
  have "\<forall>v \<in> set (drawnInterpolations evs). \<exists>i. v = Finite i \<and> 0 < i \<and> i \<le> 1"
    by simp
  with rl len show ?thesis by blast
qed

theorem interpolation_in_unit_interval_witness:
  "0 < mUpdateFrequency sampleClient
   \<and> frameTimes 0 [1 / 50, 1 / 20] = [1 / 50, 3 / 100]
   \<and> (\<exists>st this' evs.
           runMainGameLoop sampleClient 0 [1 / 50, 1 / 20] = Some (st, this', evs)
         \<and> length (drawnInterpolations evs) = 2
         \<and> list_all (\<lambda>v. \<exists>i. v = Finite i \<and> 0 < i \<and> i \<le> 1) (drawnInterpolations evs))"
proof -
  note h = sampleClient_period
  have g: "\<forall>ft \<in> set (frameTimes 0 [1 / 50, 1 / 20]). 0 \<le> (ft :: Time)"
    by simp
  have f: "frameTimes 0 [1 / 50, 1 / 20] = [1 / 50, 3 / 100 :: Time]"
    by simp
  from interpolation_in_unit_interval [OF h g] h f show ?thesis
    by (auto simp: list_all_iff)
qed

section \<open>The life cycle\<close>

text \<open>
  C5. When initializeClient or initialize returns false, run returns the fatal-error
  status and has called neither loadContent nor the main loop nor unloadContent. When
  loadContent returns false, run returns the fatal-error status and has called neither
  the main loop nor unloadContent. Whenever run returns, it has called unloadContent if
  and only if it has called the main loop, and then its status is success. When all three
  succeed and the update period is positive, run does return, by way of the main loop.
\<close>

theorem run_lifecycle:
  "(\<not> initializeClient h \<or> \<not> initialize h \<longrightarrow>
      (\<exists>evs. run h this startTime clock = Some (EPROGRAM_FATAL_ERROR, this, evs)
            \<and> CallLoadContent \<notin> set evs
            \<and> CallRunMainGameLoop \<notin> set evs
            \<and> CallUnloadContent \<notin> set evs))
   \<and> (\<not> loadContent h \<longrightarrow>
      (\<exists>evs. run h this startTime clock = Some (EPROGRAM_FATAL_ERROR, this, evs)
            \<and> CallRunMainGameLoop \<notin> set evs
            \<and> CallUnloadContent \<notin> set evs))
   \<and> (run h this startTime clock = Some (st, this', evs') \<longrightarrow>
        (CallUnloadContent \<in> set evs' \<longleftrightarrow> CallRunMainGameLoop \<in> set evs')
      \<and> (CallRunMainGameLoop \<in> set evs' \<longrightarrow> st = EPROGRAM_OK))
   \<and> (initializeClient h \<and> initialize h \<and> loadContent h \<and> 0 < mUpdateFrequency this \<longrightarrow>
      (\<exists>this'' evs. run h this startTime clock = Some (EPROGRAM_OK, this'', evs)
            \<and> CallRunMainGameLoop \<in> set evs
            \<and> CallUnloadContent \<in> set evs))"
proof (intro conjI impI)
  assume "\<not> initializeClient h \<or> \<not> initialize h"
  then show "\<exists>evs. run h this startTime clock = Some (EPROGRAM_FATAL_ERROR, this, evs)
            \<and> CallLoadContent \<notin> set evs
            \<and> CallRunMainGameLoop \<notin> set evs
            \<and> CallUnloadContent \<notin> set evs"
    by (auto simp: run_def Let_def)
next
  assume "\<not> loadContent h"
  then show "\<exists>evs. run h this startTime clock = Some (EPROGRAM_FATAL_ERROR, this, evs)
            \<and> CallRunMainGameLoop \<notin> set evs
            \<and> CallUnloadContent \<notin> set evs"
    by (auto simp: run_def Let_def)
next
  assume "run h this startTime clock = Some (st, this', evs')"
  then show "CallUnloadContent \<in> set evs' \<longleftrightarrow> CallRunMainGameLoop \<in> set evs'"
    by (auto simp: run_def Let_def split: if_splits option.splits)
next
  assume "run h this startTime clock = Some (st, this', evs')"
    and "CallRunMainGameLoop \<in> set evs'"
  then show "st = EPROGRAM_OK"
    by (auto simp: run_def Let_def split: if_splits option.splits)
next
  assume a: "initializeClient h \<and> initialize h \<and> loadContent h \<and> 0 < mUpdateFrequency this"
  then have P: "0 < mUpdateFrequency (this\<lparr>mIsGameRunning := True\<rparr>)"
    and r: "mIsGameRunning (this\<lparr>mIsGameRunning := True\<rparr>)"
    by simp_all
  obtain this'' ls'' evs where
    "mainLoop (this\<lparr>mIsGameRunning := True\<rparr>) (loopStart startTime) clock = Some (this'', ls'', evs)"
    using mainLoop_total [OF P r] by blast
  then have "runMainGameLoop this startTime clock = Some (EPROGRAM_OK, this'', evs)"
    by (simp add: runMainGameLoop_def)
  with a show "\<exists>this'' evs. run h this startTime clock = Some (EPROGRAM_OK, this'', evs)
            \<and> CallRunMainGameLoop \<in> set evs
            \<and> CallUnloadContent \<in> set evs"
    by (simp add: run_def Let_def)
qed

theorem run_lifecycle_witness:
  "\<not> initialize \<lparr>initializeClient = True, initialize = False, loadContent = True\<rparr>
   \<and> (\<exists>evs. run \<lparr>initializeClient = True, initialize = False, loadContent = True\<rparr>
               sampleClient 0 [1 / 50] = Some (EPROGRAM_FATAL_ERROR, sampleClient, evs)
            \<and> CallLoadContent \<notin> set evs
            \<and> CallRunMainGameLoop \<notin> set evs
            \<and> CallUnloadContent \<notin> set evs)
   \<and> \<not> loadContent \<lparr>initializeClient = True, initialize = True, loadContent = False\<rparr>
   \<and> (\<exists>evs. run \<lparr>initializeClient = True, initialize = True, loadContent = False\<rparr>
               sampleClient 0 [1 / 50] = Some (EPROGRAM_FATAL_ERROR, sampleClient, evs)
            \<and> CallRunMainGameLoop \<notin> set evs
            \<and> CallUnloadContent \<notin> set evs)
   \<and> run GameClient_hooks sampleClient 0 []
        = Some (EPROGRAM_OK, sampleClient\<lparr>mIsGameRunning := True\<rparr>,
                [Show (Addr 1), CallInitializeClient, CallInitialize, CallLoadContent,
                 CallRunMainGameLoop, CallUnloadContent])
   \<and> initializeClient GameClient_hooks \<and> initialize GameClient_hooks
   \<and> loadContent GameClient_hooks \<and> 0 < mUpdateFrequency sampleClient
   \<and> (\<exists>this'' evs. run GameClient_hooks sampleClient 0 [1 / 50] = Some (EPROGRAM_OK, this'', evs)
            \<and> CallRunMainGameLoop \<in> set evs
            \<and> CallUnloadContent \<in> set evs)"
proof -
  let ?h1 = "\<lparr>initializeClient = True, initialize = False, loadContent = True\<rparr>"
  let ?h2 = "\<lparr>initializeClient = True, initialize = True, loadContent = False\<rparr>"
  have a1: "\<not> initializeClient ?h1 \<or> \<not> initialize ?h1" by simp
  have a2: "\<not> loadContent ?h2" by simp
  have a3: "run GameClient_hooks sampleClient 0 []
        = Some (EPROGRAM_OK, sampleClient\<lparr>mIsGameRunning := True\<rparr>,
                [Show (Addr 1), CallInitializeClient, CallInitialize, CallLoadContent,
                 CallRunMainGameLoop, CallUnloadContent])"
    by code_simp
  have a4: "initializeClient GameClient_hooks \<and> initialize GameClient_hooks
      \<and> loadContent GameClient_hooks \<and> 0 < mUpdateFrequency sampleClient"
    by (simp add: GameClient_hooks_def sampleClient_def)
  note t1 = run_lifecycle [where h = ?h1 and this = sampleClient and startTime = 0
      and clock = "[1 / 50]"]
  note t2 = run_lifecycle [where h = ?h2 and this = sampleClient and startTime = 0
      and clock = "[1 / 50]"]
  note t3 = run_lifecycle [where h = GameClient_hooks and this = sampleClient and startTime = 0
      and clock = "[]" and st = EPROGRAM_OK and this' = "sampleClient\<lparr>mIsGameRunning := True\<rparr>"
      and evs' = "[Show (Addr 1), CallInitializeClient, CallInitialize, CallLoadContent,
                 CallRunMainGameLoop, CallUnloadContent]"]
  note t4 = run_lifecycle [where h = GameClient_hooks and this = sampleClient and startTime = 0
      and clock = "[1 / 50]"]
  from t1 a1 have c1: "\<exists>evs. run ?h1 sampleClient 0 [1 / 50] = Some (EPROGRAM_FATAL_ERROR, sampleClient, evs)
            \<and> CallLoadContent \<notin> set evs
            \<and> CallRunMainGameLoop \<notin> set evs
            \<and> CallUnloadContent \<notin> set evs"
    by blast
  from t2 a2 have c2: "\<exists>evs. run ?h2 sampleClient 0 [1 / 50] = Some (EPROGRAM_FATAL_ERROR, sampleClient, evs)
            \<and> CallRunMainGameLoop \<notin> set evs
            \<and> CallUnloadContent \<notin> set evs"
    by blast
  from t4 a4 have c4: "\<exists>this'' evs. run GameClient_hooks sampleClient 0 [1 / 50] = Some (EPROGRAM_OK, this'', evs)
            \<and> CallRunMainGameLoop \<in> set evs
            \<and> CallUnloadContent \<in> set evs"
    by blast
  from a1 a2 a3 a4 c1 c2 c4 t3 show ?thesis
    by simp
qed

end
